theory Spec2Isabelle
  imports Complex_Main "HOL-Library.Word" "HOL-Library.Sublist"
begin

section \<open>JavaScript values as the service sees them\<close>

text \<open>
  The service (\<^verbatim>\<open>src/index.ts\<close>) is TypeScript, whose types are erased before it runs:
  request bodies, upstream payloads and the result of \<^verbatim>\<open>JSON.parse\<close> are values of type
  \<^verbatim>\<open>any\<close>. The model therefore works on untyped JavaScript values and writes out the
  coercions (\<^verbatim>\<open>!x\<close>, \<^verbatim>\<open>Number(x)\<close>, \<^verbatim>\<open>String(x)\<close>, \<^verbatim>\<open>x.key\<close>) that the source applies to them.
\<close>

subsection \<open>Strings\<close>

text \<open>
  A JavaScript string is a sequence of 16-bit code units. \<open>js\<close> turns an ASCII
  literal of the source into such a sequence.
\<close>

type_synonym jstring = "16 word list"

definition js :: "string \<Rightarrow> jstring" where
  "js = map of_char"

definition is_space :: "16 word \<Rightarrow> bool" where
  \<comment> \<open>WhiteSpace and LineTerminator of ECMAScript, the characters \<^verbatim>\<open>trim\<close> removes.\<close>
  "is_space c \<longleftrightarrow>
     (0x09 \<le> c \<and> c \<le> 0x0D) \<or> c = 0x20 \<or> c = 0xA0 \<or> c = 0x1680 \<or>
     (0x2000 \<le> c \<and> c \<le> 0x200A) \<or> c = 0x2028 \<or> c = 0x2029 \<or> c = 0x202F \<or>
     c = 0x205F \<or> c = 0x3000 \<or> c = 0xFEFF"

definition trim :: "jstring \<Rightarrow> jstring" where
  \<comment> \<open>\<^verbatim>\<open>String.prototype.trim\<close>\<close>
  "trim s = rev (dropWhile is_space (rev (dropWhile is_space s)))"

fun join :: "jstring \<Rightarrow> jstring list \<Rightarrow> jstring" where
  \<comment> \<open>\<^verbatim>\<open>Array.prototype.join\<close> on elements that are strings already\<close>
  "join sep [] = []"
| "join sep [x] = x"
| "join sep (x # y # ys) = x @ sep @ join sep (y # ys)"

definition is_digit :: "16 word \<Rightarrow> bool" where
  "is_digit c \<longleftrightarrow> 0x30 \<le> c \<and> c \<le> 0x39"

definition digit_val :: "16 word \<Rightarrow> nat" where
  "digit_val c = unat c - 48"

definition digits_val :: "jstring \<Rightarrow> nat" where
  "digits_val s = foldl (\<lambda>a c. 10 * a + digit_val c) 0 s"

definition digit_char :: "nat \<Rightarrow> 16 word" where
  "digit_char d = of_nat (48 + d)"

fun digits_of :: "nat \<Rightarrow> jstring" where
  "digits_of n = (if n < 10 then [digit_char n] else digits_of (n div 10) @ [digit_char (n mod 10)])"

declare digits_of.simps [simp del]

subsection \<open>Numbers\<close>

text \<open>
  A JavaScript number is an IEEE-754 binary64 value. \<open>Fin q\<close> is the finite double whose
  exact value is the rational \<open>q\<close>; the two zeros, which \<^verbatim>\<open>===\<close>, \<^verbatim>\<open>String\<close> and
  \<^verbatim>\<open>JSON.stringify\<close> do not tell apart, are both \<open>Fin 0\<close>.
\<close>

datatype jsnum = NaN | PosInf | NegInf | Fin rat

definition negate :: "jsnum \<Rightarrow> jsnum" where
  "negate x = (case x of NaN \<Rightarrow> NaN | PosInf \<Rightarrow> NegInf | NegInf \<Rightarrow> PosInf | Fin q \<Rightarrow> Fin (- q))"

definition is_finite_integer :: "jsnum \<Rightarrow> bool" where
  \<comment> \<open>\<^verbatim>\<open>Number.isInteger\<close>\<close>
  "is_finite_integer x = (case x of Fin q \<Rightarrow> of_int \<lfloor>q\<rfloor> = q | _ \<Rightarrow> False)"

definition pow :: "int \<Rightarrow> int \<Rightarrow> rat" where
  "pow b e = (if 0 \<le> e then of_int b ^ nat e else 1 / of_int b ^ nat (- e))"

function width :: "int \<Rightarrow> int \<Rightarrow> int" where
  \<comment> \<open>the number of base-\<open>b\<close> digits of \<open>n\<close>\<close>
  "width b n = (if n \<le> 0 \<or> b < 2 then 0 else 1 + width b (n div b))"
  by pat_completeness auto
termination
  by (relation "measure (\<lambda>(b, n). nat n)") (auto intro: int_div_less_self)

declare width.simps [simp del]

definition floor_log :: "int \<Rightarrow> rat \<Rightarrow> int" where
  \<comment> \<open>for \<open>0 < q\<close>, the \<open>e\<close> with \<open>b ^ e \<le> q < b ^ (e + 1)\<close>\<close>
  "floor_log b q =
     (let (n, d) = quotient_of q; e = width b n - width b d
      in if pow b e \<le> q then e else e - 1)"

definition round_half_even :: "rat \<Rightarrow> int" where
  "round_half_even r =
     (let f = \<lfloor>r\<rfloor>; d = r - of_int f
      in if d < 1 / 2 then f else if 1 / 2 < d then f + 1 else if even f then f else f + 1)"

definition round64 :: "rat \<Rightarrow> jsnum" where
  \<comment> \<open>the Number value for a real: round to nearest, ties to even, 53 significant bits,
      least exponent -1022, overflow to infinity\<close>
  "round64 q =
     (if q = 0 then Fin 0
      else let a = \<bar>q\<bar>;
               e = max (floor_log 2 a) (- 1022);
               u = pow 2 (e - 52);
               r = of_int (round_half_even (a / u)) * u;
               m = (if pow 2 1024 \<le> r then PosInf else Fin r)
           in if q < 0 then negate m else m)"

definition decimal_value :: "jstring \<Rightarrow> jstring \<Rightarrow> int \<Rightarrow> rat" where
  \<comment> \<open>the value of integer digits, fraction digits and a decimal exponent\<close>
  "decimal_value ip fp e = of_nat (digits_val (ip @ fp)) * pow 10 (e - int (length fp))"

definition split_exponent :: "jstring \<Rightarrow> (int \<times> jstring) option" where
  \<comment> \<open>an optional exponent part \<^verbatim>\<open>e\<close>, sign, digits at the head of the text, and the rest;
      \<open>None\<close> when the \<^verbatim>\<open>e\<close> is there and its digits are not\<close>
  "split_exponent s =
     (case s of
        [] \<Rightarrow> Some (0, s)
      | c # r \<Rightarrow>
          if c = 0x65 \<or> c = 0x45 then
            (let (neg, r') =
                   (case r of
                      [] \<Rightarrow> (False, r)
                    | d # t \<Rightarrow> if d = 0x2D then (True, t) else if d = 0x2B then (False, t) else (False, r));
                 ds = takeWhile is_digit r'
             in if ds = [] then None
                else Some (if neg then - int (digits_val ds) else int (digits_val ds),
                           dropWhile is_digit r'))
          else Some (0, s))"

subsubsection \<open>Number to string\<close>

text \<open>
  \<^verbatim>\<open>Number::toString\<close> prints the shortest decimal \<open>s * 10 ^ (n - k)\<close>, with \<open>k\<close> digits,
  whose Number value is the number printed; binary64 needs at most 17 digits. For an
  integer below \<open>2 ^ 53\<close> that decimal is its own expansion (a shorter one is another
  integer, which is a double too), and this case is written directly.
\<close>

definition candidate :: "rat \<Rightarrow> int \<Rightarrow> nat \<Rightarrow> (int \<times> int) option" where
  \<comment> \<open>the \<open>k\<close>-digit decimal next to \<open>x\<close> that rounds to \<open>x\<close>, if there is one, as \<open>(s, n)\<close>\<close>
  "candidate x n k =
     (let scale = pow 10 (n - int k);
          lo = \<lfloor>x / scale\<rfloor>;
          hi = lo + 1;
          ok_lo = (round64 (of_int lo * scale) = Fin x);
          ok_hi = (round64 (of_int hi * scale) = Fin x);
          dl = x - of_int lo * scale;
          dh = of_int hi * scale - x
      in if ok_hi \<and> (\<not> ok_lo \<or> dh < dl \<or> (dh = dl \<and> even hi))
         then (if hi = 10 ^ k then Some (10 ^ (k - 1), n + 1) else Some (hi, n))
         else if ok_lo then Some (lo, n) else None)"

definition shortest :: "rat \<Rightarrow> int \<Rightarrow> int \<times> int" where
  "shortest x n =
     (case List.map_filter (candidate x n) [1 ..< 18] of
        r # _ \<Rightarrow> r
      | [] \<Rightarrow> (\<lfloor>x / pow 10 (n - 17)\<rfloor>, n))"

definition format_digits :: "jstring \<Rightarrow> int \<Rightarrow> jstring" where
  \<comment> \<open>steps 6 to 10 of \<^verbatim>\<open>Number::toString\<close>: digits \<open>ds\<close> of \<open>s\<close>, decimal point position \<open>n\<close>\<close>
  "format_digits ds n =
     (let k = int (length ds)
      in if k \<le> n \<and> n \<le> 21 then ds @ replicate (nat (n - k)) 0x30
         else if 0 < n \<and> n \<le> 21 then take (nat n) ds @ [0x2E] @ drop (nat n) ds
         else if - 6 < n \<and> n \<le> 0 then js ''0.'' @ replicate (nat (- n)) 0x30 @ ds
         else let ex = (if n - 1 < 0 then 0x2D else 0x2B) # digits_of (nat \<bar>n - 1\<bar>)
              in if k = 1 then ds @ [0x65] @ ex
                 else take 1 ds @ [0x2E] @ drop 1 ds @ [0x65] @ ex)"

definition num_to_string :: "jsnum \<Rightarrow> jstring" where
  \<comment> \<open>\<^verbatim>\<open>Number::toString\<close>, radix 10\<close>
  "num_to_string x =
     (case x of
        NaN \<Rightarrow> js ''NaN''
      | PosInf \<Rightarrow> js ''Infinity''
      | NegInf \<Rightarrow> js ''-Infinity''
      | Fin q \<Rightarrow>
          if q = 0 then js ''0''
          else (if q < 0 then [0x2D] else []) @
               (let a = \<bar>q\<bar>
                in if of_int \<lfloor>a\<rfloor> = a \<and> a < 2 ^ 53 then digits_of (nat \<lfloor>a\<rfloor>)
                   else let (s, n) = shortest a (floor_log 10 a + 1)
                        in format_digits (digits_of (nat s)) n))"

subsubsection \<open>String to number\<close>

definition radix_digit :: "16 word \<Rightarrow> nat option" where
  "radix_digit c =
     (if 0x30 \<le> c \<and> c \<le> 0x39 then Some (unat c - 48)
      else if 0x61 \<le> c \<and> c \<le> 0x66 then Some (unat c - 87)
      else if 0x41 \<le> c \<and> c \<le> 0x46 then Some (unat c - 55)
      else None)"

definition radix_value :: "nat \<Rightarrow> jstring \<Rightarrow> nat option" where
  \<comment> \<open>the value of a non-empty digit string in radix 2, 8 or 16\<close>
  "radix_value r s =
     (if s = [] then None
      else foldl (\<lambda>a c. case (a, radix_digit c) of
                          (Some v, Some d) \<Rightarrow> if d < r then Some (r * v + d) else None
                        | _ \<Rightarrow> None) (Some 0) s)"

definition str_unsigned_decimal :: "jstring \<Rightarrow> jsnum" where
  \<comment> \<open>StrUnsignedDecimalLiteral; text that is not one is \<open>NaN\<close>\<close>
  "str_unsigned_decimal s =
     (if s = js ''Infinity'' then PosInf
      else let ip = takeWhile is_digit s;
               r1 = dropWhile is_digit s;
               (fp, r2) = (case r1 of
                             [] \<Rightarrow> ([], r1)
                           | c # t \<Rightarrow> if c = 0x2E then (takeWhile is_digit t, dropWhile is_digit t)
                                      else ([], r1))
           in if ip = [] \<and> fp = [] then NaN
              else (case split_exponent r2 of
                      Some (e, []) \<Rightarrow> round64 (decimal_value ip fp e)
                    | _ \<Rightarrow> NaN))"

definition string_to_number :: "jstring \<Rightarrow> jsnum" where
  \<comment> \<open>\<^verbatim>\<open>StringToNumber\<close>: what \<^verbatim>\<open>Number\<close> does to a string\<close>
  "string_to_number s =
     (let t = trim s
      in case t of
           [] \<Rightarrow> Fin 0
         | c # r \<Rightarrow>
             if c = 0x30 \<and> r \<noteq> [] \<and> hd r \<in> {0x78, 0x58, 0x6F, 0x4F, 0x62, 0x42} then
               (case radix_value (if hd r \<in> {0x78, 0x58} then 16 else if hd r \<in> {0x6F, 0x4F} then 8 else 2)
                       (tl r) of
                  Some v \<Rightarrow> round64 (of_nat v)
                | None \<Rightarrow> NaN)
             else if c = 0x2D then negate (str_unsigned_decimal r)
             else if c = 0x2B then str_unsigned_decimal r
             else str_unsigned_decimal t)"

subsection \<open>Values, truthiness and property reads\<close>

datatype jsval =
    JUndefined
  | JNull
  | JBool bool
  | JNum jsnum
  | JStr jstring
  | JArr "jsval list"
  | JObj "(jstring \<times> jsval) list"

text \<open>
  What the source throws with \<^verbatim>\<open>new Error(message)\<close> is \<open>Error message\<close>. The other
  exceptions come from the platform: a \<open>TypeError\<close> for a property read on
  \<^verbatim>\<open>undefined\<close> or \<^verbatim>\<open>null\<close>, a call of something that is no function or a failed
  conversion to a primitive; a \<open>SyntaxError\<close> from \<^verbatim>\<open>JSON.parse\<close>; \<open>Rejected\<close> for a
  \<^verbatim>\<open>fetch\<close> or a \<^verbatim>\<open>res.json()\<close> whose promise rejects.
\<close>

datatype exn = Error jstring | TypeError | SyntaxError | Rejected

definition bindE :: "exn + 'a \<Rightarrow> ('a \<Rightarrow> exn + 'b) \<Rightarrow> exn + 'b" where
  "bindE m f = (case m of Inl e \<Rightarrow> Inl e | Inr x \<Rightarrow> f x)"

fun sequenceE :: "(exn + 'a) list \<Rightarrow> exn + 'a list" where
  \<comment> \<open>the results in order, or the first exception\<close>
  "sequenceE [] = Inr []"
| "sequenceE (Inl e # ms) = Inl e"
| "sequenceE (Inr x # ms) = (case sequenceE ms of Inl e \<Rightarrow> Inl e | Inr xs \<Rightarrow> Inr (x # xs))"

definition truthy :: "jsval \<Rightarrow> bool" where
  \<comment> \<open>\<^verbatim>\<open>ToBoolean\<close>: what \<^verbatim>\<open>!x\<close>, \<^verbatim>\<open>x || y\<close> and \<^verbatim>\<open>if (x)\<close> test\<close>
  "truthy v =
     (case v of
        JUndefined \<Rightarrow> False
      | JNull \<Rightarrow> False
      | JBool b \<Rightarrow> b
      | JNum n \<Rightarrow> n \<noteq> NaN \<and> n \<noteq> Fin 0
      | JStr s \<Rightarrow> s \<noteq> []
      | JArr _ \<Rightarrow> True
      | JObj _ \<Rightarrow> True)"

definition or_else :: "jsval \<Rightarrow> jsval \<Rightarrow> jsval" where
  \<comment> \<open>\<^verbatim>\<open>a || b\<close>\<close>
  "or_else a b = (if truthy a then a else b)"

definition nullish :: "jsval \<Rightarrow> bool" where
  "nullish v \<longleftrightarrow> v = JUndefined \<or> v = JNull"

definition array_index :: "jstring \<Rightarrow> nat option" where
  \<comment> \<open>a property key that is an array index: the canonical decimal form of an integer
      below \<open>2 ^ 32 - 1\<close>\<close>
  "array_index k =
     (if k \<noteq> [] \<and> list_all is_digit k \<and> (k = [0x30] \<or> hd k \<noteq> 0x30) \<and> length k \<le> 10
         \<and> digits_val k < 2 ^ 32 - 1
      then Some (digits_val k) else None)"

fun put :: "jstring \<Rightarrow> jsval \<Rightarrow> (jstring \<times> jsval) list \<Rightarrow> (jstring \<times> jsval) list" where
  \<comment> \<open>defining a property: a key that is there keeps its place and takes the new value\<close>
  "put k v [] = [(k, v)]"
| "put k v (p # ps) = (if fst p = k then (k, v) # ps else p # put k v ps)"

definition own :: "(jstring \<times> jsval) list \<Rightarrow> jstring \<Rightarrow> jsval" where
  "own kvs k = (case map_of kvs k of None \<Rightarrow> JUndefined | Some v \<Rightarrow> v)"

text \<open>
  \<open>read v k\<close> is \<^verbatim>\<open>v[k]\<close> for a \<open>v\<close> that is neither \<^verbatim>\<open>undefined\<close> nor \<^verbatim>\<open>null\<close>. Values
  made by \<^verbatim>\<open>JSON.parse\<close> have own data properties only. What a key finds on a prototype
  (\<^verbatim>\<open>constructor\<close>, \<^verbatim>\<open>toString\<close>, the array methods) is a built-in function or object,
  which has none of the properties this program goes on to read; the program names no
  such key itself and can meet one only in \<^verbatim>\<open>news[articleIndex]\<close>, where the model reads
  \<^verbatim>\<open>undefined\<close> in its place.
\<close>

definition read :: "jsval \<Rightarrow> jstring \<Rightarrow> jsval" where
  "read v k =
     (case v of
        JObj kvs \<Rightarrow> own kvs k
      | JArr xs \<Rightarrow>
          if k = js ''length'' then JNum (Fin (of_nat (length xs)))
          else (case array_index k of
                  Some i \<Rightarrow> if i < length xs then xs ! i else JUndefined
                | None \<Rightarrow> JUndefined)
      | JStr s \<Rightarrow>
          if k = js ''length'' then JNum (Fin (of_nat (length s)))
          else (case array_index k of
                  Some i \<Rightarrow> if i < length s then JStr [s ! i] else JUndefined
                | None \<Rightarrow> JUndefined)
      | _ \<Rightarrow> JUndefined)"

definition member :: "jsval \<Rightarrow> jstring \<Rightarrow> exn + jsval" where
  \<comment> \<open>\<^verbatim>\<open>v.k\<close>\<close>
  "member v k = (if nullish v then Inl TypeError else Inr (read v k))"

definition opt_member :: "jsval \<Rightarrow> jstring \<Rightarrow> jsval" where
  \<comment> \<open>\<^verbatim>\<open>v?.k\<close>\<close>
  "opt_member v k = (if nullish v then JUndefined else read v k)"

subsection \<open>Conversions\<close>

text \<open>
  \<^verbatim>\<open>String(v)\<close>, a template literal and a property key convert with \<^verbatim>\<open>ToString\<close>. An array
  joins its elements with commas, \<^verbatim>\<open>null\<close> and \<^verbatim>\<open>undefined\<close> elements as empty text. An
  object prints as \<^verbatim>\<open>[object Object]\<close>, unless it has an own property \<^verbatim>\<open>toString\<close>: that
  one hides \<^verbatim>\<open>Object.prototype.toString\<close> and is not callable, so the conversion throws.
\<close>

fun to_string :: "jsval \<Rightarrow> exn + jstring" where
  "to_string JUndefined = Inr (js ''undefined'')"
| "to_string JNull = Inr (js ''null'')"
| "to_string (JBool b) = Inr (if b then js ''true'' else js ''false'')"
| "to_string (JNum n) = Inr (num_to_string n)"
| "to_string (JStr s) = Inr s"
| "to_string (JArr xs) =
     (case sequenceE (map (\<lambda>x. if nullish x then Inr [] else to_string x) xs) of
        Inl e \<Rightarrow> Inl e
      | Inr ss \<Rightarrow> Inr (join (js '','') ss))"
| "to_string (JObj kvs) =
     (if map_of kvs (js ''toString'') \<noteq> None then Inl TypeError else Inr (js ''[object Object]''))"

definition to_number :: "jsval \<Rightarrow> exn + jsnum" where
  \<comment> \<open>\<^verbatim>\<open>Number(v)\<close>\<close>
  "to_number v =
     (case v of
        JUndefined \<Rightarrow> Inr NaN
      | JNull \<Rightarrow> Inr (Fin 0)
      | JBool b \<Rightarrow> Inr (Fin (if b then 1 else 0))
      | JNum n \<Rightarrow> Inr n
      | JStr s \<Rightarrow> Inr (string_to_number s)
      | _ \<Rightarrow> bindE (to_string v) (\<lambda>s. Inr (string_to_number s)))"

definition call_toString :: "jsval \<Rightarrow> exn + jstring" where
  \<comment> \<open>\<^verbatim>\<open>v.toString()\<close>\<close>
  "call_toString v = (if nullish v then Inl TypeError else to_string v)"

definition call_join :: "jsval \<Rightarrow> jstring \<Rightarrow> exn + jstring" where
  \<comment> \<open>\<^verbatim>\<open>v.join(sep)\<close>: only an array has the method\<close>
  "call_join v sep =
     (case v of
        JArr xs \<Rightarrow>
          (case sequenceE (map (\<lambda>x. if nullish x then Inr [] else to_string x) xs) of
             Inl e \<Rightarrow> Inl e
           | Inr ss \<Rightarrow> Inr (join sep ss))
      | _ \<Rightarrow> Inl TypeError)"

subsection \<open>JSON.parse\<close>

text \<open>
  \<^verbatim>\<open>JSON.parse\<close> is modelled as a lexer for the JSON tokens followed by a pushdown
  automaton over them; text outside the JSON grammar is a \<open>SyntaxError\<close>. An object
  keeps its members in the order of their first appearance, a repeated key taking its
  last value.
\<close>

datatype token =
    LBrace | RBrace | LBracket | RBracket | Colon | Comma
  | TString jstring | TNumber jsnum | TTrue | TFalse | TNull

definition unescape :: "16 word \<Rightarrow> 16 word option" where
  "unescape e =
     (if e = 0x22 then Some 0x22
      else if e = 0x5C then Some 0x5C
      else if e = 0x2F then Some 0x2F
      else if e = 0x62 then Some 0x08
      else if e = 0x66 then Some 0x0C
      else if e = 0x6E then Some 0x0A
      else if e = 0x72 then Some 0x0D
      else if e = 0x74 then Some 0x09
      else None)"

definition cons_result :: "'a \<Rightarrow> ('a list \<times> 'b) option \<Rightarrow> ('a list \<times> 'b) option" where
  "cons_result c r = (case r of None \<Rightarrow> None | Some (s, rest) \<Rightarrow> Some (c # s, rest))"

fun lex_string :: "jstring \<Rightarrow> (jstring \<times> jstring) option" where
  "lex_string [] = None"
| "lex_string (c # cs) =
     (if c = 0x22 then Some ([], cs)
      else if c = 0x5C then
        (case cs of
           [] \<Rightarrow> None
         | e # r \<Rightarrow>
             if e = 0x75 then
               (case (if length r < 4 then None else radix_value 16 (take 4 r)) of
                  None \<Rightarrow> None
                | Some v \<Rightarrow> cons_result (of_nat v) (lex_string (drop 4 r)))
             else
               (case unescape e of
                  None \<Rightarrow> None
                | Some u \<Rightarrow> cons_result u (lex_string r)))
      else if c < 0x20 then None
      else cons_result c (lex_string cs))"

definition split_fraction :: "jstring \<Rightarrow> (jstring \<times> jstring) option" where
  \<comment> \<open>an optional fraction, a point and at least one digit, at the head of the text\<close>
  "split_fraction s =
     (case s of
        [] \<Rightarrow> Some ([], s)
      | c # t \<Rightarrow>
          if c = 0x2E
          then (if takeWhile is_digit t = [] then None
                else Some (takeWhile is_digit t, dropWhile is_digit t))
          else Some ([], s))"

definition lex_number :: "jstring \<Rightarrow> (jsnum \<times> jstring) option" where
  "lex_number s =
     (let neg = (take 1 s = [0x2D]);
          s1 = (if neg then drop 1 s else s);
          ip = takeWhile is_digit s1
      in if ip = [] \<or> (1 < length ip \<and> hd ip = 0x30) then None
         else (case split_fraction (dropWhile is_digit s1) of
                 None \<Rightarrow> None
               | Some (fp, r2) \<Rightarrow>
                   (case split_exponent r2 of
                      None \<Rightarrow> None
                    | Some (e, r3) \<Rightarrow>
                        Some ((if neg then negate else id) (round64 (decimal_value ip fp e)), r3))))"

lemma cons_result_length: "cons_result c r = Some (s, rest) \<Longrightarrow> \<exists>s'. r = Some (s', rest)"
  by (auto simp: cons_result_def split: option.splits)

lemma lex_string_shorter: "lex_string cs = Some (s, rest) \<Longrightarrow> length rest < length cs"
proof (induction "length cs" arbitrary: cs s rest rule: less_induct)
  case less
  have IH: "\<And>t s' r. lex_string t = Some (s', r) \<Longrightarrow> length t < length cs \<Longrightarrow> length r < length t"
    using less.hyps by blast
  show ?case
  proof (cases cs)
    case Nil
    with less.prems show ?thesis by simp
  next
    case (Cons c cs')
    with less.prems show ?thesis
      by (auto split: if_splits list.splits option.splits dest!: cons_result_length)
        (force dest!: IH)+
  qed
qed

lemma split_exponent_length: "split_exponent s = Some (e, r) \<Longrightarrow> length r \<le> length s"
  by (auto simp: split_exponent_def Let_def split: list.splits if_splits prod.splits
      intro: le_trans [OF length_dropWhile_le])

lemma split_fraction_length: "split_fraction s = Some (fp, r) \<Longrightarrow> length r \<le> length s"
  by (auto simp: split_fraction_def split: list.splits if_splits
      intro: le_trans [OF length_dropWhile_le])

lemma dropWhile_shorter: "takeWhile P xs \<noteq> [] \<Longrightarrow> length (dropWhile P xs) < length xs"
  by (cases xs) (auto simp: less_Suc_eq_le length_dropWhile_le split: if_splits)

lemma lex_number_shorter:
  assumes "lex_number s = Some (n, rest)"
  shows "length rest < length s"
proof -
  define s1 where "s1 = (if take 1 s = [0x2D] then drop 1 s else s)"
  from assms have ip: "takeWhile is_digit s1 \<noteq> []"
    by (auto simp: lex_number_def Let_def s1_def split: if_splits)
  with assms obtain fp r2 e where
    fr: "split_fraction (dropWhile is_digit s1) = Some (fp, r2)"
    and ex: "split_exponent r2 = Some (e, rest)"
    by (auto simp: lex_number_def Let_def s1_def split: if_splits option.splits)
  have "length s1 \<le> length s"
    by (simp add: s1_def)
  moreover from ip have "length (dropWhile is_digit s1) < length s1"
    by (rule dropWhile_shorter)
  moreover from fr have "length r2 \<le> length (dropWhile is_digit s1)"
    by (rule split_fraction_length)
  moreover from ex have "length rest \<le> length r2"
    by (rule split_exponent_length)
  ultimately show ?thesis by linarith
qed

function tokenize :: "jstring \<Rightarrow> token list option" where
  "tokenize [] = Some []"
| "tokenize (c # cs) =
     (if c = 0x20 \<or> c = 0x09 \<or> c = 0x0A \<or> c = 0x0D then tokenize cs
      else if c = 0x7B then map_option ((#) LBrace) (tokenize cs)
      else if c = 0x7D then map_option ((#) RBrace) (tokenize cs)
      else if c = 0x5B then map_option ((#) LBracket) (tokenize cs)
      else if c = 0x5D then map_option ((#) RBracket) (tokenize cs)
      else if c = 0x3A then map_option ((#) Colon) (tokenize cs)
      else if c = 0x2C then map_option ((#) Comma) (tokenize cs)
      else if c = 0x22 then
        (case lex_string cs of
           None \<Rightarrow> None
         | Some (s, rest) \<Rightarrow> map_option ((#) (TString s)) (tokenize rest))
      else if c = 0x2D \<or> is_digit c then
        (case lex_number (c # cs) of
           None \<Rightarrow> None
         | Some (n, rest) \<Rightarrow> map_option ((#) (TNumber n)) (tokenize rest))
      else if take 4 (c # cs) = js ''true'' then map_option ((#) TTrue) (tokenize (drop 3 cs))
      else if take 5 (c # cs) = js ''false'' then map_option ((#) TFalse) (tokenize (drop 4 cs))
      else if take 4 (c # cs) = js ''null'' then map_option ((#) TNull) (tokenize (drop 3 cs))
      else None)"
  by pat_completeness auto
termination
  by (relation "measure length")
    (auto dest: lex_string_shorter lex_number_shorter intro: less_imp_le_nat le_imp_less_Suc)

declare tokenize.simps [simp del]

datatype frame = InArray "jsval list" | InObject "(jstring \<times> jsval) list" jstring

datatype pstate =
    Value "frame list"
  | ArrayOpen "frame list"
  | ArrayNext "jsval list" "frame list"
  | ObjectOpen "frame list"
  | KeyNext "(jstring \<times> jsval) list" "frame list"
  | ColonNext "(jstring \<times> jsval) list" jstring "frame list"
  | ObjectNext "(jstring \<times> jsval) list" "frame list"
  | Finished jsval

fun complete :: "jsval \<Rightarrow> frame list \<Rightarrow> pstate" where
  "complete v [] = Finished v"
| "complete v (InArray acc # st) = ArrayNext (v # acc) st"
| "complete v (InObject kvs k # st) = ObjectNext (put k v kvs) st"

fun begin_value :: "token \<Rightarrow> frame list \<Rightarrow> pstate option" where
  "begin_value (TString s) st = Some (complete (JStr s) st)"
| "begin_value (TNumber n) st = Some (complete (JNum n) st)"
| "begin_value TTrue st = Some (complete (JBool True) st)"
| "begin_value TFalse st = Some (complete (JBool False) st)"
| "begin_value TNull st = Some (complete JNull st)"
| "begin_value LBracket st = Some (ArrayOpen st)"
| "begin_value LBrace st = Some (ObjectOpen st)"
| "begin_value _ st = None"

fun step :: "pstate \<Rightarrow> token \<Rightarrow> pstate option" where
  "step (Value st) t = begin_value t st"
| "step (ArrayOpen st) t =
     (if t = RBracket then Some (complete (JArr []) st) else begin_value t (InArray [] # st))"
| "step (ArrayNext acc st) t =
     (if t = Comma then Some (Value (InArray acc # st))
      else if t = RBracket then Some (complete (JArr (rev acc)) st)
      else None)"
| "step (ObjectOpen st) t =
     (case t of
        RBrace \<Rightarrow> Some (complete (JObj []) st)
      | TString k \<Rightarrow> Some (ColonNext [] k st)
      | _ \<Rightarrow> None)"
| "step (KeyNext kvs st) t = (case t of TString k \<Rightarrow> Some (ColonNext kvs k st) | _ \<Rightarrow> None)"
| "step (ColonNext kvs k st) t = (if t = Colon then Some (Value (InObject kvs k # st)) else None)"
| "step (ObjectNext kvs st) t =
     (if t = Comma then Some (KeyNext kvs st)
      else if t = RBrace then Some (complete (JObj kvs) st)
      else None)"
| "step (Finished v) t = None"

fun run :: "pstate \<Rightarrow> token list \<Rightarrow> pstate option" where
  "run s [] = Some s"
| "run s (t # ts) = (case step s t of None \<Rightarrow> None | Some s' \<Rightarrow> run s' ts)"

definition JSON_parse :: "jstring \<Rightarrow> exn + jsval" where
  "JSON_parse text =
     (case tokenize text of
        None \<Rightarrow> Inl SyntaxError
      | Some ts \<Rightarrow>
          (case run (Value []) ts of
             Some (Finished v) \<Rightarrow> Inr v
           | _ \<Rightarrow> Inl SyntaxError))"


section \<open>The service\<close>

subsection \<open>Data model\<close>

text \<open>
  The interfaces \<^verbatim>\<open>ImgflipTemplate\<close> and \<^verbatim>\<open>MemeCaption\<close> are built field by field by the
  source, so their number and string fields have those types at run time. A
  \<^verbatim>\<open>NewsArticle\<close> is whatever element the news API put in \<^verbatim>\<open>results\<close> and the \<^verbatim>\<open>name\<close> of a
  template is whatever the catalog holds: they stay untyped values.
\<close>

record ImgflipTemplate =
  template_id :: jsnum
  template_name :: jsval

record MemeCaption =
  image' :: jsnum
  topText :: jstring
  bottomText :: jstring

definition template_json :: "ImgflipTemplate \<Rightarrow> jsval" where
  "template_json t = JObj [(js ''id'', JNum (template_id t)), (js ''name'', template_name t)]"

definition caption_json :: "MemeCaption \<Rightarrow> jsval" where
  "caption_json c =
     JObj [(js ''image'', JNum (image' c)), (js ''topText'', JStr (topText c)),
           (js ''bottomText'', JStr (bottomText c))]"

subsection \<open>Configuration\<close>

type_synonym env = "jstring \<Rightarrow> jstring option"

definition env_read :: "env \<Rightarrow> jstring \<Rightarrow> jsval" where
  \<comment> \<open>\<^verbatim>\<open>process.env[key]\<close>\<close>
  "env_read env key = (case env key of None \<Rightarrow> JUndefined | Some s \<Rightarrow> JStr s)"

definition required :: "jstring list" where
  "required =
     [js ''NEWSDATA_API_KEY'', js ''GEMINI_API_KEY'', js ''IMGFLIP_USERNAME'', js ''IMGFLIP_PASSWORD'']"

definition missing :: "env \<Rightarrow> jstring list" where
  "missing env = filter (\<lambda>key. \<not> truthy (env_read env key)) required"

definition missing_variables :: "env \<Rightarrow> exn" where
  \<comment> \<open>\<^verbatim>\<open>new Error(`Missing required environment variables: ${missing.join(", ")}`)\<close>\<close>
  "missing_variables env =
     Error (js ''Missing required environment variables: '' @ join (js '', '') (missing env))"

definition validateEnvVars :: "env \<Rightarrow> exn + unit" where
  "validateEnvVars env = (if 0 < length (missing env) then Inl (missing_variables env) else Inr ())"

subsection \<open>Outbound calls\<close>

text \<open>
  Each service method makes one HTTP request. A \<open>call\<close> records which one, with the
  query or form parameters before their encoding; the upstream services are a function
  from the request to what \<^verbatim>\<open>fetch\<close> resolves to, or to the rejection of its promise. A
  computation is the value it returns or the exception it throws, together with the
  calls it has made, in order.
\<close>

datatype call =
    GetNews "(jstring \<times> jstring) list"
  | GetTemplates
  | PostGemini jstring jstring
  | PostCaptionImage "(jstring \<times> jstring) list"

record response =
  ok :: bool
  status :: nat
  statusText :: jstring
  body :: "exn + jsval"

type_synonym upstream = "call \<Rightarrow> exn + response"

type_synonym 'a io = "(exn + 'a) \<times> call list"

definition returnIO :: "'a \<Rightarrow> 'a io" where
  "returnIO x = (Inr x, [])"

definition throwIO :: "exn \<Rightarrow> 'a io" where
  "throwIO e = (Inl e, [])"

definition liftE :: "exn + 'a \<Rightarrow> 'a io" where
  "liftE m = (m, [])"

definition bindIO :: "'a io \<Rightarrow> ('a \<Rightarrow> 'b io) \<Rightarrow> 'b io" where
  "bindIO m f =
     (case m of
        (Inl e, cs) \<Rightarrow> (Inl e, cs)
      | (Inr x, cs) \<Rightarrow> (case f x of (r, cs') \<Rightarrow> (r, cs @ cs')))"

definition fetch :: "upstream \<Rightarrow> call \<Rightarrow> response io" where
  "fetch up c = (up c, [c])"

definition http_error :: "jstring \<Rightarrow> response \<Rightarrow> exn" where
  \<comment> \<open>\<^verbatim>\<open>new Error(`<api> error: ${res.status} ${res.statusText}`)\<close>\<close>
  "http_error api res = Error (api @ js '' error: '' @ digits_of (status res) @ js '' '' @ statusText res)"

subsection \<open>Service methods\<close>

definition fetchIndianNews :: "upstream \<Rightarrow> env \<Rightarrow> jsval \<Rightarrow> jsval list io" where
  \<comment> \<open>\<^verbatim>\<open>topic = ""\<close> is the default of a missing argument; any other value that is no
      string has no method \<^verbatim>\<open>trim\<close>\<close>
  "fetchIndianNews up env topic =
     bindIO (liftE (to_string (env_read env (js ''NEWSDATA_API_KEY'')))) (\<lambda>apiKey.
     let params = [(js ''apikey'', apiKey), (js ''country'', js ''in''),
                   (js ''language'', js ''en''), (js ''size'', js ''10'')]
     in bindIO (case (if topic = JUndefined then JStr [] else topic) of
                  JStr t \<Rightarrow> returnIO (if trim t \<noteq> [] then params @ [(js ''q'', t)] else params)
                | _ \<Rightarrow> throwIO TypeError) (\<lambda>params.
        bindIO (fetch up (GetNews params)) (\<lambda>res.
        if \<not> ok res then throwIO (http_error (js ''NewsData API'') res)
        else bindIO (liftE (body res)) (\<lambda>data.
             bindIO (liftE (member data (js ''results''))) (\<lambda>results.
             case results of
               JArr articles \<Rightarrow> returnIO articles
             | _ \<Rightarrow> returnIO [])))))"

definition project :: "jsval \<Rightarrow> exn + ImgflipTemplate" where
  \<comment> \<open>\<^verbatim>\<open>({ id, name }) => ({ id: Number(id), name })\<close>\<close>
  "project m =
     (if nullish m then Inl TypeError
      else bindE (to_number (read m (js ''id''))) (\<lambda>n.
           Inr \<lparr>template_id = n, template_name = read m (js ''name'')\<rparr>))"

definition fetchImgflipTemplates :: "upstream \<Rightarrow> ImgflipTemplate list io" where
  "fetchImgflipTemplates up =
     bindIO (fetch up GetTemplates) (\<lambda>res.
     if \<not> ok res then throwIO (http_error (js ''Imgflip templates API'') res)
     else bindIO (liftE (body res)) (\<lambda>json.
          bindIO (liftE (member json (js ''success''))) (\<lambda>success.
          if \<not> truthy success then throwIO (Error (js ''Imgflip API returned success: false''))
          else bindIO (liftE (member json (js ''data''))) (\<lambda>data.
               bindIO (liftE (member data (js ''memes''))) (\<lambda>memes.
               case memes of
                 JArr ms \<Rightarrow> liftE (sequenceE (map project (take 100 ms)))
               | _ \<Rightarrow> throwIO TypeError)))))"

function remove_all :: "jstring \<Rightarrow> jstring \<Rightarrow> jstring" where
  \<comment> \<open>\<^verbatim>\<open>s.replace(/pat/g, "")\<close> for a pattern of literal characters: the matches are taken
      from left to right and do not overlap\<close>
  "remove_all pat [] = []"
| "remove_all pat (c # cs) =
     (if pat \<noteq> [] \<and> take (length pat) (c # cs) = pat
      then remove_all pat (drop (length pat) (c # cs))
      else c # remove_all pat cs)"
  by pat_completeness auto
termination
  by (relation "measure (\<lambda>(pat, s). length s)") auto

declare remove_all.simps [simp del]

definition clean :: "jstring \<Rightarrow> jstring" where
  \<comment> \<open>\<^verbatim>\<open>caption.replace(/```json/g, "").replace(/```/g, "").trim()\<close>\<close>
  "clean caption = trim (remove_all (js ''```'') (remove_all (js ''```json'') caption))"

definition parseMemeCaption_try :: "jsval \<Rightarrow> exn + MemeCaption" where
  \<comment> \<open>the \<^verbatim>\<open>try\<close> block; an argument that is no string has no method \<^verbatim>\<open>replace\<close>\<close>
  "parseMemeCaption_try caption =
     (case caption of
        JStr s \<Rightarrow>
          bindE (JSON_parse (clean s)) (\<lambda>json.
          bindE (bindE (member json (js ''image'')) to_number) (\<lambda>i.
          bindE (bindE (member json (js ''topText'')) to_string) (\<lambda>t.
          bindE (bindE (member json (js ''bottomText'')) to_string) (\<lambda>b.
          Inr \<lparr>image' = i, topText = t, bottomText = b\<rparr>))))
      | _ \<Rightarrow> Inl TypeError)"

definition parseMemeCaption :: "jsval \<Rightarrow> exn + MemeCaption option" where
  \<comment> \<open>\<^verbatim>\<open>try { ... } catch { return null; }\<close>\<close>
  "parseMemeCaption caption =
     (case parseMemeCaption_try caption of
        Inl e \<Rightarrow> Inr None
      | Inr c \<Rightarrow> Inr (Some c))"

definition prompt :: "jstring \<Rightarrow> jstring \<Rightarrow> jstring \<Rightarrow> jstring" where
  "prompt title description ids =
     js ''Generate a meme worthy caption for the following news: '' @ title @ js '', '' @ description
     @ [0x0A, 0x0A] @ js ''Response should be valid JSON in this exact format:''
     @ [0x0A] @ js ''{''
     @ [0x0A] @ js ''  '' @ [0x22] @ js ''image'' @ [0x22] @ js '': <number>,''
     @ [0x0A] @ js ''  '' @ [0x22] @ js ''topText'' @ [0x22] @ js '': '' @ [0x22] @ js ''<string>'' @ [0x22] @ js '',''
     @ [0x0A] @ js ''  '' @ [0x22] @ js ''bottomText'' @ [0x22] @ js '': '' @ [0x22] @ js ''<string>'' @ [0x22]
     @ [0x0A] @ js ''}''
     @ [0x0A, 0x0A] @ js ''The image number should be a template ID from imgflip that'' @ [0x27]
     @ js ''s relevant to this meme.''
     @ [0x0A] @ js ''Choose from these template IDs only: '' @ ids
     @ [0x0A] @ js ''Make the meme funny and relevant to the news content.''"

definition first_text :: "jsval \<Rightarrow> jsval" where
  \<comment> \<open>\<^verbatim>\<open>data?.candidates?.[0]?.content?.parts?.[0]?.text\<close>\<close>
  "first_text data =
     opt_member (opt_member (opt_member (opt_member (opt_member (opt_member data
       (js ''candidates'')) (js ''0'')) (js ''content'')) (js ''parts'')) (js ''0'')) (js ''text'')"

definition generateCaption :: "upstream \<Rightarrow> env \<Rightarrow> jsval \<Rightarrow> jsval \<Rightarrow> jsval \<Rightarrow> MemeCaption option io" where
  "generateCaption up env title description availableTemplates =
     bindIO (liftE (to_string title)) (\<lambda>t.
     bindIO (liftE (to_string description)) (\<lambda>d.
     bindIO (liftE (call_join availableTemplates (js '', ''))) (\<lambda>ids.
     bindIO (liftE (to_string (env_read env (js ''GEMINI_API_KEY'')))) (\<lambda>geminiApiKey.
     bindIO (fetch up (PostGemini geminiApiKey (prompt t d ids))) (\<lambda>res.
     if \<not> ok res then throwIO (http_error (js ''Gemini API'') res)
     else bindIO (liftE (body res)) (\<lambda>data.
          let output = or_else (first_text data) (JStr [])
          in if \<not> truthy output then returnIO None
             else liftE (parseMemeCaption output)))))))"

definition generateMeme :: "upstream \<Rightarrow> env \<Rightarrow> jsval \<Rightarrow> jsval \<Rightarrow> jsval \<Rightarrow> jsval io" where
  "generateMeme up env templateId topText' bottomText' =
     bindIO (liftE (call_toString templateId)) (\<lambda>template_id.
     bindIO (liftE (to_string (env_read env (js ''IMGFLIP_USERNAME'')))) (\<lambda>username.
     bindIO (liftE (to_string (env_read env (js ''IMGFLIP_PASSWORD'')))) (\<lambda>password.
     bindIO (liftE (to_string topText')) (\<lambda>text0.
     bindIO (liftE (to_string bottomText')) (\<lambda>text1.
     bindIO (fetch up (PostCaptionImage
               [(js ''template_id'', template_id), (js ''username'', username),
                (js ''password'', password), (js ''text0'', text0), (js ''text1'', text1)])) (\<lambda>res.
     bindIO (liftE (body res)) (\<lambda>data.
     bindIO (liftE (member data (js ''success''))) (\<lambda>success.
     if \<not> truthy success
     then bindIO (liftE (to_string (read data (js ''error_message'')))) (\<lambda>m.
          throwIO (Error (js ''Imgflip API error: '' @ m)))
     else returnIO (or_else (opt_member (read data (js ''data'')) (js ''url'')) JNull)))))))))"

subsection \<open>Routes\<close>

text \<open>
  A handler runs its \<^verbatim>\<open>try\<close> block and answers \<^verbatim>\<open>res.json(payload)\<close>, here \<open>Success payload\<close>;
  the \<^verbatim>\<open>catch\<close> answers status 500 with \<^verbatim>\<open>{success: false, error: err.message}\<close>, here
  \<open>Failure err\<close>. The result of a handler is its answer and the calls it made.
\<close>

record request =
  query :: jsval
  payload :: jsval

datatype reply = Success jsval | Failure exn

definition attempt :: "jsval io \<Rightarrow> reply \<times> call list" where
  "attempt m = (case m of (Inl e, cs) \<Rightarrow> (Failure e, cs) | (Inr v, cs) \<Rightarrow> (Success v, cs))"

definition count_of :: "'a list \<Rightarrow> jsval" where
  "count_of xs = JNum (Fin (of_nat (length xs)))"

definition fetch_indian_news_steps :: "env \<Rightarrow> request \<Rightarrow> upstream \<Rightarrow> jsval io" where
  "fetch_indian_news_steps env req up =
     bindIO (liftE (member (query req) (js ''topic''))) (\<lambda>q.
     bindIO (liftE (if nullish q then Inr JUndefined else bindE (to_string q) (\<lambda>s. Inr (JStr s)))) (\<lambda>s.
     bindIO (fetchIndianNews up env (or_else s (JStr []))) (\<lambda>news.
     returnIO (JObj [(js ''success'', JBool True), (js ''count'', count_of news),
                     (js ''articles'', JArr news)]))))"

definition fetch_indian_news :: "env \<Rightarrow> request \<Rightarrow> upstream \<Rightarrow> reply \<times> call list" where
  "fetch_indian_news env req up =
     attempt (bindIO (liftE (validateEnvVars env)) (\<lambda>_. fetch_indian_news_steps env req up))"

definition get_meme_templates :: "env \<Rightarrow> request \<Rightarrow> upstream \<Rightarrow> reply \<times> call list" where
  "get_meme_templates env req up =
     attempt (bindIO (fetchImgflipTemplates up) (\<lambda>templates.
       returnIO (JObj [(js ''success'', JBool True), (js ''count'', count_of templates),
                       (js ''templates'', JArr (map template_json templates))])))"

definition missing_parameters :: exn where
  "missing_parameters = Error (js ''Missing required parameters'')"

definition generate_meme_caption_steps :: "env \<Rightarrow> request \<Rightarrow> upstream \<Rightarrow> jsval io" where
  "generate_meme_caption_steps env req up =
     bindIO (liftE (member (payload req) (js ''title''))) (\<lambda>title.
     let description = read (payload req) (js ''description'');
         availableTemplates = read (payload req) (js ''availableTemplates'')
     in if \<not> truthy title \<or> \<not> truthy description \<or> \<not> truthy availableTemplates
        then throwIO missing_parameters
        else bindIO (generateCaption up env title description availableTemplates) (\<lambda>caption.
             returnIO (JObj [(js ''success'', JBool True),
                             (js ''caption'', case caption of None \<Rightarrow> JNull | Some c \<Rightarrow> caption_json c)])))"

definition generate_meme_caption :: "env \<Rightarrow> request \<Rightarrow> upstream \<Rightarrow> reply \<times> call list" where
  "generate_meme_caption env req up =
     attempt (bindIO (liftE (validateEnvVars env)) (\<lambda>_. generate_meme_caption_steps env req up))"

definition create_meme_steps :: "env \<Rightarrow> request \<Rightarrow> upstream \<Rightarrow> jsval io" where
  "create_meme_steps env req up =
     bindIO (liftE (member (payload req) (js ''templateId''))) (\<lambda>templateId.
     let topText = read (payload req) (js ''topText'');
         bottomText = read (payload req) (js ''bottomText'')
     in if \<not> truthy templateId \<or> \<not> truthy topText \<or> \<not> truthy bottomText
        then throwIO missing_parameters
        else bindIO (generateMeme up env templateId topText bottomText) (\<lambda>memeUrl.
             returnIO (JObj [(js ''success'', JBool True), (js ''memeUrl'', memeUrl)])))"

definition create_meme :: "env \<Rightarrow> request \<Rightarrow> upstream \<Rightarrow> reply \<times> call list" where
  "create_meme env req up =
     attempt (bindIO (liftE (validateEnvVars env)) (\<lambda>_. create_meme_steps env req up))"

definition element :: "jsval list \<Rightarrow> jsval \<Rightarrow> exn + jsval" where
  \<comment> \<open>\<^verbatim>\<open>news[articleIndex]\<close>: the index is converted to a property key\<close>
  "element news i = bindE (to_string i) (\<lambda>key. Inr (read (JArr news) key))"

definition generate_news_meme_steps :: "env \<Rightarrow> request \<Rightarrow> upstream \<Rightarrow> jsval io" where
  "generate_news_meme_steps env req up =
     bindIO (liftE (member (payload req) (js ''topic''))) (\<lambda>t.
     let topic = or_else t (JStr []);
         articleIndex = or_else (read (payload req) (js ''articleIndex'')) (JNum (Fin 0))
     in bindIO (fetchIndianNews up env topic) (\<lambda>news.
        if news = [] then throwIO (Error (js ''No news articles found''))
        else bindIO (liftE (element news articleIndex)) (\<lambda>article.
             if \<not> truthy (opt_member article (js ''title''))
                \<or> \<not> truthy (opt_member article (js ''description''))
             then throwIO (Error (js ''Invalid article''))
             else bindIO (fetchImgflipTemplates up) (\<lambda>templates.
                  let templateIds = map template_id templates
                  in bindIO (generateCaption up env (read article (js ''title''))
                               (read article (js ''description'')) (JArr (map JNum templateIds))) (\<lambda>caption.
                     case caption of
                       None \<Rightarrow> throwIO (Error (js ''Failed to generate meme caption''))
                     | Some c \<Rightarrow>
                         bindIO (generateMeme up env (JNum (image' c)) (JStr (topText c))
                                   (JStr (bottomText c))) (\<lambda>memeUrl.
                         returnIO (JObj
                           [(js ''success'', JBool True),
                            (js ''article'',
                               JObj [(js ''title'', read article (js ''title'')),
                                     (js ''description'', read article (js ''description''))]),
                            (js ''caption'', caption_json c),
                            (js ''memeUrl'', memeUrl)])))))))"

definition generate_news_meme :: "env \<Rightarrow> request \<Rightarrow> upstream \<Rightarrow> reply \<times> call list" where
  "generate_news_meme env req up =
     attempt (bindIO (liftE (validateEnvVars env)) (\<lambda>_. generate_news_meme_steps env req up))"

definition puch_generate_meme_steps :: "env \<Rightarrow> request \<Rightarrow> upstream \<Rightarrow> jsval io" where
  "puch_generate_meme_steps env req up =
     bindIO (liftE (member (payload req) (js ''topic''))) (\<lambda>t.
     let topic = or_else (or_else t (opt_member (read (payload req) (js ''params'')) (js ''topic'')))
                   (JStr []);
         articleIndex = or_else (read (payload req) (js ''articleIndex'')) (JNum (Fin 0))
     in if \<not> truthy topic then throwIO (Error (js ''Topic is required''))
        else bindIO (fetchIndianNews up env topic) (\<lambda>news.
        if news = []
        then bindIO (liftE (to_string topic)) (\<lambda>s.
             throwIO (Error (js ''No news articles found for topic: '' @ s)))
        else bindIO (liftE (element news articleIndex)) (\<lambda>article.
             if \<not> truthy (opt_member article (js ''title''))
                \<or> \<not> truthy (opt_member article (js ''description''))
             then throwIO (Error (js ''Selected article is missing title/description''))
             else bindIO (fetchImgflipTemplates up) (\<lambda>templates.
                  let templateIds = map template_id templates
                  in bindIO (generateCaption up env (read article (js ''title''))
                               (read article (js ''description'')) (JArr (map JNum templateIds))) (\<lambda>caption.
                     case caption of
                       None \<Rightarrow> throwIO (Error (js ''Failed to generate meme caption''))
                     | Some c \<Rightarrow>
                         bindIO (generateMeme up env (JNum (image' c)) (JStr (topText c))
                                   (JStr (bottomText c))) (\<lambda>memeUrl.
                         if \<not> truthy memeUrl then throwIO (Error (js ''Failed to create meme image''))
                         else returnIO (JObj
                           [(js ''success'', JBool True),
                            (js ''article'',
                               JObj [(js ''title'', read article (js ''title'')),
                                     (js ''description'', read article (js ''description'')),
                                     (js ''link'', or_else (read article (js ''link'')) JNull)]),
                            (js ''caption'', caption_json c),
                            (js ''memeUrl'', memeUrl)])))))))"

definition puch_generate_meme :: "env \<Rightarrow> request \<Rightarrow> upstream \<Rightarrow> reply \<times> call list" where
  "puch_generate_meme env req up =
     attempt (bindIO (liftE (validateEnvVars env)) (\<lambda>_. puch_generate_meme_steps env req up))"

datatype verb = GET | POST

definition app :: "verb \<Rightarrow> jstring \<Rightarrow> (env \<Rightarrow> request \<Rightarrow> upstream \<Rightarrow> reply \<times> call list) option" where
  \<comment> \<open>the routes registered with \<^verbatim>\<open>app.get\<close> and \<^verbatim>\<open>app.post\<close>\<close>
  "app v path =
     (if v = GET \<and> path = js ''/fetch_indian_news'' then Some fetch_indian_news
      else if v = GET \<and> path = js ''/get_meme_templates'' then Some get_meme_templates
      else if v = POST \<and> path = js ''/generate_meme_caption'' then Some generate_meme_caption
      else if v = POST \<and> path = js ''/create_meme'' then Some create_meme
      else if v = POST \<and> path = js ''/generate_news_meme'' then Some generate_news_meme
      else if v = POST \<and> path = js ''/puch_generate_meme'' then Some puch_generate_meme
      else None)"


subsection \<open>JSON serialization of a caption\<close>

text \<open>
  The claim on round trips speaks of the JSON serialization of a caption, which the
  source does not compute itself: it is \<^verbatim>\<open>JSON.stringify\<close> of an object with the three
  fields in the order of the interface. A string is quoted with the short escapes, with
  \<^verbatim>\<open>\uXXXX\<close> for the other control characters and for a surrogate without its partner, and
  literally otherwise; a number that is not finite prints as \<^verbatim>\<open>null\<close>.
\<close>

definition hex_char :: "nat \<Rightarrow> 16 word" where
  "hex_char d = of_nat (if d < 10 then 48 + d else 87 + d)"

definition hex4 :: "16 word \<Rightarrow> jstring" where
  "hex4 c =
     (let n = unat c
      in [hex_char (n div 16 div 16 div 16), hex_char (n div 16 div 16 mod 16),
          hex_char (n div 16 mod 16), hex_char (n mod 16)])"

definition is_high :: "16 word \<Rightarrow> bool" where
  "is_high c \<longleftrightarrow> 0xD800 \<le> c \<and> c \<le> 0xDBFF"

definition is_low :: "16 word \<Rightarrow> bool" where
  "is_low c \<longleftrightarrow> 0xDC00 \<le> c \<and> c \<le> 0xDFFF"

definition escape_unit :: "16 word \<Rightarrow> jstring" where
  "escape_unit c =
     (if c = 0x08 then [0x5C, 0x62]
      else if c = 0x09 then [0x5C, 0x74]
      else if c = 0x0A then [0x5C, 0x6E]
      else if c = 0x0C then [0x5C, 0x66]
      else if c = 0x0D then [0x5C, 0x72]
      else if c = 0x22 then [0x5C, 0x22]
      else if c = 0x5C then [0x5C, 0x5C]
      else if c < 0x20 \<or> is_high c \<or> is_low c then [0x5C, 0x75] @ hex4 c
      else [c])"

fun quote_body :: "jstring \<Rightarrow> jstring" where
  "quote_body [] = []"
| "quote_body [c] = escape_unit c"
| "quote_body (c # d # cs) =
     (if is_high c \<and> is_low d then c # d # quote_body cs
      else escape_unit c @ quote_body (d # cs))"

definition quote :: "jstring \<Rightarrow> jstring" where
  \<comment> \<open>\<^verbatim>\<open>QuoteJSONString\<close>\<close>
  "quote s = [0x22] @ quote_body s @ [0x22]"

definition stringify_number :: "jsnum \<Rightarrow> jstring" where
  "stringify_number x = (case x of Fin q \<Rightarrow> num_to_string x | _ \<Rightarrow> js ''null'')"

definition stringify_caption :: "MemeCaption \<Rightarrow> jstring" where
  \<comment> \<open>\<^verbatim>\<open>JSON.stringify(c)\<close> for \<^verbatim>\<open>c: MemeCaption\<close>\<close>
  "stringify_caption c =
     js ''{'' @ quote (js ''image'') @ js '':'' @ stringify_number (image' c)
     @ js '','' @ quote (js ''topText'') @ js '':'' @ quote (topText c)
     @ js '','' @ quote (js ''bottomText'') @ js '':'' @ quote (bottomText c)
     @ js ''}''"

definition fence :: jstring where
  "fence = js ''```''"

fun fence_free :: "nat \<Rightarrow> jstring \<Rightarrow> bool" where
  \<comment> \<open>after \<open>n\<close> backticks, the text never completes a run of three\<close>
  "fence_free n [] = True"
| "fence_free n (c # cs) = (if c = 0x60 then n < 2 \<and> fence_free (Suc n) cs else fence_free 0 cs)"

subsection \<open>Notions used in the proofs about numbers\<close>

text \<open>
  The doubles around a positive \<open>a\<close> are the multiples of \<open>ulp a\<close>. A numeric literal is
  an integer part followed by an optional fraction and an optional exponent; the two
  functions below write the optional parts out.
\<close>

definition ulp :: "rat \<Rightarrow> rat" where
  \<comment> \<open>the distance between neighbouring doubles at a positive real\<close>
  "ulp a = pow 2 (max (floor_log 2 a) (- 1022) - 52)"

datatype exponent_part = NoExponent | ExponentPlus nat | ExponentMinus nat

fun exponent_text :: "exponent_part \<Rightarrow> jstring" where
  "exponent_text NoExponent = []"
| "exponent_text (ExponentPlus m) = 0x65 # 0x2B # digits_of m"
| "exponent_text (ExponentMinus m) = 0x65 # 0x2D # digits_of m"

fun exponent_value :: "exponent_part \<Rightarrow> int" where
  "exponent_value NoExponent = 0"
| "exponent_value (ExponentPlus m) = int m"
| "exponent_value (ExponentMinus m) = - int m"

definition fraction_text :: "jstring \<Rightarrow> jstring" where
  "fraction_text fp = (if fp = [] then [] else 0x2E # fp)"

section \<open>Sample values\<close>

text \<open>Concrete configurations, requests and upstream answers at which the properties are instantiated.\<close>

definition env_full :: env where
  "env_full key = (if key \<in> set required then Some (js ''secret'') else None)"

definition env_partial :: env where
  "env_partial key =
     (if key = js ''NEWSDATA_API_KEY'' then Some (js ''k1'')
      else if key = js ''IMGFLIP_USERNAME'' then Some (js ''user'')
      else if key = js ''IMGFLIP_PASSWORD'' then Some []
      else None)"

definition env_none :: env where
  "env_none key = None"

definition ok200 :: "jsval \<Rightarrow> exn + response" where
  "ok200 v = Inr \<lparr>ok = True, status = 200, statusText = js ''OK'', body = Inr v\<rparr>"

definition no_upstream :: upstream where
  "no_upstream c = Inl Rejected"

definition empty_request :: request where
  "empty_request = \<lparr>query = JObj [], payload = JObj []\<rparr>"

definition sample_article :: jsval where
  "sample_article =
     JObj [(js ''title'', JStr (js ''India wins'')), (js ''description'', JStr (js ''Historic victory''))]"

definition news_body :: jsval where
  "news_body = JObj [(js ''status'', JStr (js ''success'')), (js ''results'', JArr [sample_article])]"

definition catalog_body :: jsval where
  "catalog_body =
     JObj [(js ''success'', JBool True),
           (js ''data'', JObj [(js ''memes'',
              JArr [JObj [(js ''id'', JStr (js ''1'')), (js ''name'', JStr (js ''Drake''))]])])]"

definition gemini_body :: "jstring \<Rightarrow> jsval" where
  "gemini_body text =
     JObj [(js ''candidates'',
        JArr [JObj [(js ''content'', JObj [(js ''parts'', JArr [JObj [(js ''text'', JStr text)]])])]])]"

definition sample_caption :: MemeCaption where
  "sample_caption =
     \<lparr>image' = Fin 1, topText = js ''When India wins'', bottomText = js ''Everyone celebrates''\<rparr>"

definition sample_caption_text :: jstring where
  "sample_caption_text =
     js ''```json'' @ [0x0A] @ js ''{'' @ [0x22] @ js ''image'' @ [0x22] @ js '':1,''
     @ [0x22] @ js ''topText'' @ [0x22] @ js '':'' @ [0x22] @ js ''When India wins'' @ [0x22] @ js '',''
     @ [0x22] @ js ''bottomText'' @ [0x22] @ js '':'' @ [0x22] @ js ''Everyone celebrates'' @ [0x22]
     @ js ''}'' @ [0x0A] @ js ''```''"

definition render_body :: "jsval \<Rightarrow> jsval" where
  "render_body d = JObj [(js ''success'', JBool True), (js ''data'', d)]"

definition upstream_of :: "jsval \<Rightarrow> jsval \<Rightarrow> jsval \<Rightarrow> jsval \<Rightarrow> upstream" where
  "upstream_of news catalog gemini render c =
     (case c of
        GetNews _ \<Rightarrow> ok200 news
      | GetTemplates \<Rightarrow> ok200 catalog
      | PostGemini _ _ \<Rightarrow> ok200 gemini
      | PostCaptionImage _ \<Rightarrow> ok200 render)"

definition up_no_caption :: upstream where
  "up_no_caption =
     upstream_of news_body catalog_body (JObj [(js ''candidates'', JArr [])])
       (render_body (JObj [(js ''url'', JStr (js ''https://i.imgflip.com/abc.jpg''))]))"

definition up_no_url :: upstream where
  "up_no_url =
     upstream_of news_body catalog_body (gemini_body sample_caption_text) (render_body (JObj []))"

definition cricket_request :: request where
  "cricket_request = \<lparr>query = JObj [], payload = JObj [(js ''topic'', JStr (js ''cricket''))]\<rparr>"

definition news_call :: call where
  "news_call =
     GetNews [(js ''apikey'', js ''secret''), (js ''country'', js ''in''), (js ''language'', js ''en''),
              (js ''size'', js ''10''), (js ''q'', js ''cricket'')]"


definition sample_template :: ImgflipTemplate where
  "sample_template = \<lparr>template_id = Fin 1, template_name = JStr (js ''Drake'')\<rparr>"


definition gemini_call :: call where
  "gemini_call = PostGemini (js ''secret'') (prompt (js ''India wins'') (js ''Historic victory'') (js ''1''))"


definition render_call :: call where
  "render_call =
     PostCaptionImage
       [(js ''template_id'', js ''1''), (js ''username'', js ''secret''), (js ''password'', js ''secret''),
        (js ''text0'', js ''When India wins''), (js ''text1'', js ''Everyone celebrates'')]"


definition sample_json :: jstring where
  "sample_json =
     [0x7B, 0x22] @ js ''image'' @ [0x22] @ js '':1,''
     @ [0x22] @ js ''topText'' @ [0x22] @ js '':'' @ [0x22] @ js ''When India wins'' @ [0x22] @ js '',''
     @ [0x22] @ js ''bottomText'' @ [0x22] @ js '':'' @ [0x22] @ js ''Everyone celebrates'' @ [0x22]
     @ js ''}''"

definition up_null_news :: upstream where
  "up_null_news = upstream_of JNull catalog_body (JObj []) (JObj [])"

definition big_catalog :: jsval where
  "big_catalog =
     JObj [(js ''success'', JBool True),
           (js ''data'', JObj [(js ''memes'',
              JArr (replicate 101 (JObj [(js ''id'', JStr (js ''1'')), (js ''name'', JStr (js ''Drake''))])))])]"

definition up_big_catalog :: upstream where
  "up_big_catalog = upstream_of news_body big_catalog (JObj []) (JObj [])"

definition nan_caption :: MemeCaption where
  "nan_caption = \<lparr>image' = NaN, topText = js ''undefined'', bottomText = js ''undefined''\<rparr>"

definition fence_json :: jstring where
  "fence_json =
     js ''{'' @ [0x22] @ js ''image'' @ [0x22] @ js '':1,'' @ [0x22] @ js ''topText'' @ [0x22] @ js '':''
     @ [0x22] @ js ''```'' @ [0x22] @ js '','' @ [0x22] @ js ''bottomText'' @ [0x22] @ js '':''
     @ [0x22] @ js ''b'' @ [0x22] @ js ''}''"

definition stripped_json :: jstring where
  "stripped_json =
     js ''{'' @ [0x22] @ js ''image'' @ [0x22] @ js '':1,'' @ [0x22] @ js ''topText'' @ [0x22] @ js '':''
     @ [0x22, 0x22] @ js '','' @ [0x22] @ js ''bottomText'' @ [0x22] @ js '':''
     @ [0x22] @ js ''b'' @ [0x22] @ js ''}''"

definition fence_caption :: MemeCaption where
  "fence_caption = \<lparr>image' = Fin 1, topText = js ''```'', bottomText = js ''b''\<rparr>"

definition half_caption :: MemeCaption where
  "half_caption = \<lparr>image' = Fin (1 / 2), topText = js ''When India wins'',
     bottomText = js ''Everyone celebrates''\<rparr>"

definition bare_catalog :: jsval where
  "bare_catalog = JObj [(js ''success'', JBool True)]"

definition null_entry_catalog :: jsval where
  "null_entry_catalog =
     JObj [(js ''success'', JBool True), (js ''data'', JObj [(js ''memes'', JArr [JNull])])]"

section \<open>Properties\<close>

subsection \<open>Strings\<close>

lemma js_unfold: "js (c # cs) = of_char c # js cs" "js [] = []"
  by (simp_all add: js_def)

lemma unat_of_char: "unat (of_char c :: 16 word) = of_char c"
proof -
  have "(of_char c :: nat) mod 256 = of_char c" by simp
  then have "(of_char c :: nat) < 256" by (metis mod_less_divisor zero_less_numeral)
  moreover have "(256 :: nat) < 2 ^ 16" by simp
  ultimately have "(of_char c :: nat) < 2 ^ 16" by (rule less_trans)
  moreover have "(of_char c :: 16 word) = of_nat (of_char c)" by (simp add: of_nat_of_char)
  ultimately show ?thesis by (simp add: unat_of_nat take_bit_nat_eq_self)
qed

lemma of_char_word_eq_iff [simp]: "(of_char c :: 16 word) = of_char d \<longleftrightarrow> c = d"
proof
  assume "(of_char c :: 16 word) = of_char d"
  then have "unat (of_char c :: 16 word) = unat (of_char d :: 16 word)" by simp
  then show "c = d" by (simp add: unat_of_char)
qed simp

lemma js_eq_iff [simp]: "js a = js b \<longleftrightarrow> a = b"
proof -
  have "inj (of_char :: char \<Rightarrow> 16 word)" by (rule injI) simp
  then show ?thesis by (simp add: js_def inj_map_eq_map)
qed

lemma js_eq_Nil [simp]: "js a = [] \<longleftrightarrow> a = []" "[] = js a \<longleftrightarrow> a = []"
  by (auto simp: js_def)

lemma js_append [simp]: "js a @ js b = js (a @ b)"
  by (simp add: js_def)

lemma js_append_assoc [simp]: "js a @ js b @ s = js (a @ b) @ s"
  by (simp add: js_def)

subsection \<open>Numbers\<close>

lemma width_le: "m < 2 ^ k \<Longrightarrow> width 2 m \<le> int k"
proof (induction k arbitrary: m)
  case 0
  then show ?case by (subst width.simps) simp
next
  case (Suc k)
  show ?case
  proof (cases "m \<le> 0")
    case True
    then show ?thesis by (subst width.simps) simp
  next
    case False
    from Suc.prems have "m div 2 < 2 ^ k" by simp
    then have "width 2 (m div 2) \<le> int k" by (rule Suc.IH)
    with False show ?thesis by (subst width.simps) simp
  qed
qed

lemma width_one: "width 2 1 = 1"
  by (simp add: width.simps)

lemma floor_log_of_int_le:
  assumes "0 < m" "m < 2 ^ k"
  shows "floor_log 2 (of_int m) \<le> int k - 1"
proof -
  have "width 2 m \<le> int k" using assms(2) by (rule width_le)
  then show ?thesis
    by (simp add: floor_log_def Let_def width_one)
qed

lemma round_half_even_of_int: "round_half_even (of_int z) = z"
  by (simp add: round_half_even_def)


lemma pow_nonpos: "e \<le> 0 \<Longrightarrow> pow 2 e = 1 / 2 ^ nat (- e)"
  by (cases "e = 0") (simp_all add: pow_def)

lemma small_double: "m < 2 ^ 53 \<Longrightarrow> \<not> pow 2 1024 \<le> (of_int m :: rat)"
proof -
  assume "m < 2 ^ 53"
  then have "(of_int m :: rat) < 2 ^ 53"
    by (metis of_int_less_numeral_power_cancel_iff)
  also have "(2 :: rat) ^ 53 \<le> 2 ^ 1024"
    by (rule power_increasing) simp_all
  also have "(2 :: rat) ^ 1024 = pow 2 1024"
    by (simp only: pow_def) simp
  finally show ?thesis by simp
qed

lemma scaled_exact:
  assumes "e \<le> 52"
  shows "of_int (round_half_even (of_int m / pow 2 (e - 52))) * pow 2 (e - 52) = (of_int m :: rat)"
proof -
  have u: "pow 2 (e - 52) = 1 / 2 ^ nat (52 - e)"
    using assms pow_nonpos [of "e - 52"] by simp
  have "(of_int m :: rat) / pow 2 (e - 52) = of_int (m * 2 ^ nat (52 - e))"
    by (simp add: u)
  then show ?thesis
    by (simp only: round_half_even_of_int) (simp add: u)
qed

lemma round64_pos_int:
  assumes "0 < m" "m < 2 ^ 53"
  shows "(let e = max (floor_log 2 (of_int m)) (- 1022);
               u = pow 2 (e - 52);
               r = of_int (round_half_even (of_int m / u)) * u
           in if pow 2 1024 \<le> r then PosInf else Fin r) = Fin (of_int m)"
proof -
  have "floor_log 2 (of_int m) \<le> 52"
    using floor_log_of_int_le [OF assms] by simp
  then have "max (floor_log 2 (of_int m)) (- 1022) \<le> 52" by simp
  then show ?thesis
    unfolding Let_def by (simp only: scaled_exact small_double [OF assms(2)] if_False)
qed

lemma round64_of_int:
  assumes "\<bar>n\<bar> < 2 ^ 53"
  shows "round64 (of_int n) = Fin (of_int n)"
proof (cases "n = 0")
  case True
  then show ?thesis by (simp add: round64_def)
next
  case False
  have m: "0 < \<bar>n\<bar>" using False by simp
  have abs: "\<bar>of_int n :: rat\<bar> = of_int \<bar>n\<bar>" by simp
  have "round64 (of_int n) = (if (of_int n :: rat) < 0 then negate (Fin (of_int \<bar>n\<bar>)) else Fin (of_int \<bar>n\<bar>))"
    unfolding round64_def abs using False round64_pos_int [OF m assms]
    by (simp only: Let_def of_int_eq_0_iff if_False)
  then show ?thesis
    by (simp add: negate_def)
qed

lemma digits_val_snoc: "digits_val (s @ [c]) = 10 * digits_val s + digit_val c"
  by (simp add: digits_val_def)

lemma unat_digit_char: "d < 10 \<Longrightarrow> unat (digit_char d) = 48 + d"
  unfolding digit_char_def by (simp del: of_nat_add add: unat_of_nat)

lemma digit_val_digit_char: "d < 10 \<Longrightarrow> digit_val (digit_char d) = d"
  by (simp add: digit_val_def unat_digit_char)

lemma is_digit_digit_char: "d < 10 \<Longrightarrow> is_digit (digit_char d)"
  by (simp add: is_digit_def word_le_nat_alt unat_digit_char)

lemma digits_val_digits_of: "digits_val (digits_of n) = n"
proof (induction n rule: digits_of.induct)
  case (1 n)
  show ?case
  proof (cases "n < 10")
    case True
    then show ?thesis
      by (subst digits_of.simps) (simp add: digits_val_def digit_val_digit_char)
  next
    case False
    with 1 show ?thesis
      by (subst digits_of.simps) (simp add: digits_val_snoc digit_val_digit_char)
  qed
qed

lemma digits_of_all_digits: "list_all is_digit (digits_of n)"
proof (induction n rule: digits_of.induct)
  case (1 n)
  show ?case
  proof (cases "n < 10")
    case True
    then show ?thesis
      by (subst digits_of.simps) (simp add: is_digit_digit_char)
  next
    case False
    with 1 show ?thesis
      by (subst digits_of.simps) (simp add: is_digit_digit_char)
  qed
qed

lemma digits_of_nonempty: "digits_of n \<noteq> []"
  by (subst digits_of.simps) simp

lemma hd_digits_of: "0 < n \<Longrightarrow> hd (digits_of n) \<noteq> 0x30"
proof (induction n rule: digits_of.induct)
  case (1 n)
  show ?case
  proof (cases "n < 10")
    case True
    with 1 show ?thesis
      by (subst digits_of.simps) (auto simp: word_eq_iff_unsigned [where ?'a = nat] unat_digit_char)
  next
    case False
    then have "0 < n div 10" by simp
    with 1 False show ?thesis
      by (subst digits_of.simps) (simp add: digits_of_nonempty)
  qed
qed

subsection \<open>Reading values\<close>

lemma nullish_simps [simp]:
  "nullish JUndefined" "nullish JNull" "\<not> nullish (JBool b)" "\<not> nullish (JNum n)"
  "\<not> nullish (JStr s)" "\<not> nullish (JArr xs)" "\<not> nullish (JObj kvs)"
  by (simp_all add: nullish_def)

lemma truthy_simps [simp]:
  "\<not> truthy JUndefined" "\<not> truthy JNull" "truthy (JBool b) = b"
  "truthy (JNum n) \<longleftrightarrow> n \<noteq> NaN \<and> n \<noteq> Fin 0" "truthy (JStr s) \<longleftrightarrow> s \<noteq> []"
  "truthy (JArr xs)" "truthy (JObj kvs)"
  by (simp_all add: truthy_def)

lemma truthy_not_nullish: "truthy v \<Longrightarrow> \<not> nullish v"
  by (auto simp: nullish_def)

lemma own_simps [simp]:
  "own [] k = JUndefined"
  "own ((k', v) # kvs) k = (if k = k' then v else own kvs k)"
  by (simp_all add: own_def)

lemma read_JObj [simp]: "read (JObj kvs) k = own kvs k"
  by (simp add: read_def)

lemma member_simps [simp]:
  "member JUndefined k = Inl TypeError"
  "member JNull k = Inl TypeError"
  "member (JObj kvs) k = Inr (own kvs k)"
  "member (JArr xs) k = Inr (read (JArr xs) k)"
  by (simp_all add: member_def)

lemma member_not_nullish: "\<not> nullish v \<Longrightarrow> member v k = Inr (read v k)"
  by (simp add: member_def)

lemma opt_member_simps [simp]:
  "opt_member JUndefined k = JUndefined"
  "opt_member JNull k = JUndefined"
  "opt_member (JObj kvs) k = own kvs k"
  "opt_member (JArr xs) k = read (JArr xs) k"
  by (simp_all add: opt_member_def)

lemma opt_member_not_nullish: "\<not> nullish v \<Longrightarrow> opt_member v k = read v k"
  by (simp add: opt_member_def)

lemma or_else_simps [simp]:
  "truthy a \<Longrightarrow> or_else a b = a"
  "\<not> truthy a \<Longrightarrow> or_else a b = b"
  by (simp_all add: or_else_def)

lemma array_index_0: "array_index (js ''0'') = Some 0"
  by (simp add: array_index_def js_unfold is_digit_def digits_val_def digit_val_def)

lemma read_first [simp]:
  "read (JArr (x # xs)) (js ''0'') = x"
  "read (JArr []) (js ''0'') = JUndefined"
  by (simp_all add: read_def array_index_0)

lemma bindE_simps [simp]:
  "bindE (Inl e) f = Inl e"
  "bindE (Inr x) f = f x"
  by (simp_all add: bindE_def)

lemma to_number_simps [simp]:
  "to_number JUndefined = Inr NaN"
  "to_number JNull = Inr (Fin 0)"
  "to_number (JNum n) = Inr n"
  "to_number (JStr s) = Inr (string_to_number s)"
  by (simp_all add: to_number_def)

subsection \<open>Running a handler\<close>

lemma bindIO_liftE_Inr [simp]: "bindIO (liftE (Inr x)) f = f x"
  by (simp add: bindIO_def liftE_def split: prod.splits)

lemma bindIO_liftE_Inl [simp]: "bindIO (liftE (Inl e)) f = throwIO e"
  by (simp add: bindIO_def liftE_def throwIO_def)

lemma bindIO_returnIO [simp]: "bindIO (returnIO x) f = f x"
  by (simp add: bindIO_def returnIO_def split: prod.splits)

lemma bindIO_throwIO [simp]: "bindIO (throwIO e) f = throwIO e"
  by (simp add: bindIO_def throwIO_def)

lemma bindIO_Inl [simp]: "bindIO (Inl e, cs) f = (Inl e, cs)"
  by (simp add: bindIO_def)

lemma bindIO_Inr: "bindIO (Inr x, cs) f = (fst (f x), cs @ snd (f x))"
  by (simp add: bindIO_def split: prod.splits)

lemma attempt_throwIO [simp]: "attempt (throwIO e) = (Failure e, [])"
  by (simp add: attempt_def throwIO_def)

lemma attempt_returnIO [simp]: "attempt (returnIO v) = (Success v, [])"
  by (simp add: attempt_def returnIO_def)

lemma attempt_Inl [simp]: "attempt (Inl e, cs) = (Failure e, cs)"
  by (simp add: attempt_def)

lemma attempt_Inr [simp]: "attempt (Inr v, cs) = (Success v, cs)"
  by (simp add: attempt_def)

subsection \<open>Which calls a service method makes\<close>

lemma fetchImgflipTemplates_calls: "snd (fetchImgflipTemplates up) = [GetTemplates]"
  by (auto simp: fetchImgflipTemplates_def bindIO_def fetch_def liftE_def throwIO_def returnIO_def
      split: sum.splits prod.splits jsval.splits if_splits)

lemma attempt_calls: "snd (attempt m) = snd m"
  by (simp add: attempt_def split: prod.splits sum.splits)

lemma bindIO_calls:
  "snd (bindIO m f) = snd m @ (case fst m of Inl e \<Rightarrow> [] | Inr x \<Rightarrow> snd (f x))"
  by (cases m; cases "fst m") (auto simp: bindIO_def split: prod.splits)

lemma bindIO_pure_calls: "(\<And>x. snd (f x) = []) \<Longrightarrow> snd (bindIO m f) = snd m"
  by (simp add: bindIO_calls split: sum.splits)

lemma get_meme_templates_calls: "snd (get_meme_templates env req up) = [GetTemplates]"
  by (simp add: get_meme_templates_def attempt_calls bindIO_pure_calls returnIO_def
      fetchImgflipTemplates_calls)

lemma calls_bindIO:
  "set (snd m) \<subseteq> S \<Longrightarrow> (\<And>x. set (snd (f x)) \<subseteq> S) \<Longrightarrow> set (snd (bindIO m f)) \<subseteq> S"
  by (auto simp: bindIO_calls split: sum.splits)

lemma calls_pure [simp]:
  "snd (liftE m) = []" "snd (returnIO x) = []" "snd (throwIO e) = []" "snd (fetch up c) = [c]"
  by (simp_all add: liftE_def returnIO_def throwIO_def fetch_def)

lemma result_bindIO:
  "fst (bindIO m f) = Inr v \<Longrightarrow> \<exists>x. fst m = Inr x \<and> fst (f x) = Inr v"
  by (cases m; cases "fst m") (auto simp: bindIO_def split: prod.splits)

lemma result_pure [simp]:
  "fst (liftE m) = m" "fst (returnIO x) = Inr x" "fst (throwIO e) = Inl e" "fst (fetch up c) = up c"
  by (simp_all add: liftE_def returnIO_def throwIO_def fetch_def)

lemma fetchIndianNews_calls: "set (snd (fetchIndianNews up env topic)) \<subseteq> range GetNews"
  unfolding fetchIndianNews_def Let_def
  by ((intro calls_bindIO conjI impI allI | simp split: jsval.splits)+)

lemma generateCaption_calls:
  "set (snd (generateCaption up env t d a)) \<subseteq> {c. \<exists>k p. c = PostGemini k p}"
  unfolding generateCaption_def Let_def
  by ((intro calls_bindIO conjI impI allI | simp)+)

lemma generateMeme_calls: "set (snd (generateMeme up env i t b)) \<subseteq> range PostCaptionImage"
  unfolding generateMeme_def
  by ((intro calls_bindIO conjI impI allI | simp)+)

lemma generateMeme_result:
  assumes "fst (generateMeme up env i t b) = Inr v"
  shows "v = JNull \<or> truthy v"
  using assms unfolding generateMeme_def
  by (auto dest!: result_bindIO simp: or_else_def split: if_splits)


subsection \<open>The sample values, evaluated\<close>

lemma env_full_simps [simp]:
  "env_full (js ''NEWSDATA_API_KEY'') = Some (js ''secret'')"
  "env_full (js ''GEMINI_API_KEY'') = Some (js ''secret'')"
  "env_full (js ''IMGFLIP_USERNAME'') = Some (js ''secret'')"
  "env_full (js ''IMGFLIP_PASSWORD'') = Some (js ''secret'')"
  by (simp_all add: env_full_def required_def)

lemma trim_cricket: "trim (js ''cricket'') = js ''cricket''"
  by (simp add: trim_def js_unfold is_space_def)

lemma sample_news:
  "fetchIndianNews (upstream_of news_body c g r) env_full (JStr (js ''cricket'')) =
     (Inr [sample_article], [news_call])"
  by (simp add: fetchIndianNews_def env_read_def Let_def trim_cricket fetch_def upstream_of_def ok200_def
      bindIO_Inr news_body_def returnIO_def news_call_def)

lemma string_to_number_1: "string_to_number (js ''1'') = Fin 1"
  using round64_of_int [of 1]
  by (simp add: string_to_number_def str_unsigned_decimal_def trim_def js_unfold is_space_def
      is_digit_def split_exponent_def decimal_value_def digits_val_def digit_val_def pow_def)

lemma num_to_string_1: "num_to_string (Fin 1) = js ''1''"
  by (simp add: num_to_string_def digits_of.simps digit_char_def js_unfold)

lemma num_to_string_0: "num_to_string (Fin 0) = js ''0''"
  by (simp add: num_to_string_def)

lemma sample_element: "element [sample_article] (JNum (Fin 0)) = Inr sample_article"
  by (simp add: element_def num_to_string_0)

lemma sample_templates:
  "fetchImgflipTemplates (upstream_of n catalog_body g r) = (Inr [sample_template], [GetTemplates])"
  by (simp add: fetchImgflipTemplates_def fetch_def upstream_of_def ok200_def bindIO_Inr
      catalog_body_def liftE_def project_def string_to_number_1 sample_template_def)

lemma sample_no_caption:
  "generateCaption (upstream_of n c (JObj [(js ''candidates'', JArr [])]) r) env_full
     (JStr (js ''India wins'')) (JStr (js ''Historic victory'')) (JArr [JNum (Fin 1)]) =
   (Inr None, [gemini_call])"
  by (simp add: generateCaption_def call_join_def num_to_string_1 env_read_def
      fetch_def upstream_of_def ok200_def bindIO_Inr first_text_def returnIO_def gemini_call_def)

lemma sample_clean: "clean sample_caption_text = sample_json"
  by (simp add: clean_def sample_caption_text_def sample_json_def js_unfold remove_all.simps trim_def
      is_space_def)

lemma sample_lex:
  "tokenize sample_json =
   Some [LBrace, TString (js ''image''), Colon, TNumber (Fin 1), Comma,
         TString (js ''topText''), Colon, TString (js ''When India wins''), Comma,
         TString (js ''bottomText''), Colon, TString (js ''Everyone celebrates''), RBrace]"
  using round64_of_int [of 1]
  by (simp add: sample_json_def js_unfold tokenize.simps cons_result_def lex_number_def split_fraction_def
      split_exponent_def is_digit_def decimal_value_def digits_val_def digit_val_def pow_def)

lemma sample_parse: "parseMemeCaption (JStr sample_caption_text) = Inr (Some sample_caption)"
  by (simp add: parseMemeCaption_def parseMemeCaption_try_def sample_clean sample_lex JSON_parse_def
      sample_caption_def)

lemma sample_caption_text_nonempty: "sample_caption_text \<noteq> []"
  by (simp add: sample_caption_text_def js_unfold)

lemma sample_caption_generated:
  "generateCaption (upstream_of n c (gemini_body sample_caption_text) r) env_full
     (JStr (js ''India wins'')) (JStr (js ''Historic victory'')) (JArr [JNum (Fin 1)]) =
   (Inr (Some sample_caption), [gemini_call])"
  by (simp add: generateCaption_def call_join_def num_to_string_1 env_read_def
      fetch_def upstream_of_def ok200_def bindIO_Inr first_text_def gemini_call_def gemini_body_def
      sample_parse liftE_def sample_caption_text_nonempty)

lemma sample_no_url:
  "generateMeme (upstream_of n c g (render_body (JObj []))) env_full
     (JNum (Fin 1)) (JStr (js ''When India wins'')) (JStr (js ''Everyone celebrates'')) =
   (Inr JNull, [render_call])"
  by (simp add: generateMeme_def call_toString_def num_to_string_1 env_read_def
      fetch_def upstream_of_def ok200_def bindIO_Inr render_body_def returnIO_def render_call_def)

subsection \<open>Credentials\<close>

lemma validateEnvVars_cases:
  "validateEnvVars env = (if missing env = [] then Inr () else Inl (missing_variables env))"
  by (simp add: validateEnvVars_def missing_variables_def)

lemma missing_iff:
  "key \<in> set (missing env) \<longleftrightarrow> key \<in> set required \<and> (env key = None \<or> env key = Some [])"
  by (auto simp: missing_def env_read_def truthy_def split: option.splits)

lemma missing_env_partial: "missing env_partial = [js ''GEMINI_API_KEY'', js ''IMGFLIP_PASSWORD'']"
  by (simp add: missing_def required_def env_partial_def env_read_def truthy_def)

lemma missing_env_full: "missing env_full = []"
  by (simp add: missing_def required_def env_full_def env_read_def truthy_def)

lemma missing_env_none: "missing env_none = required"
  by (simp add: missing_def required_def env_none_def env_read_def truthy_def)

text \<open>
  C8. Whatever subset of the four credentials is missing (unset, or set to the empty
  string), each of the five routes that call \<^verbatim>\<open>validateEnvVars\<close> answers with the error
  whose message lists exactly the missing keys, in the order of the list of required
  keys, and makes no outbound call; when none is missing the check returns and the route
  goes on with its own steps.
\<close>

theorem credentials_checked:
  "(\<forall>key. key \<in> set (missing env) \<longleftrightarrow>
            key \<in> set required \<and> (env key = None \<or> env key = Some []))
    \<and> missing env = filter (\<lambda>key. key \<in> set (missing env)) required
    \<and> missing_variables env =
        Error (js ''Missing required environment variables: '' @ join (js '', '') (missing env))
    \<and> (missing env \<noteq> [] \<longrightarrow>
          fetch_indian_news env req up = (Failure (missing_variables env), [])
        \<and> generate_meme_caption env req up = (Failure (missing_variables env), [])
        \<and> create_meme env req up = (Failure (missing_variables env), [])
        \<and> generate_news_meme env req up = (Failure (missing_variables env), [])
        \<and> puch_generate_meme env req up = (Failure (missing_variables env), []))
    \<and> (missing env = [] \<longrightarrow>
          validateEnvVars env = Inr ()
        \<and> fetch_indian_news env req up = attempt (fetch_indian_news_steps env req up)
        \<and> generate_meme_caption env req up = attempt (generate_meme_caption_steps env req up)
        \<and> create_meme env req up = attempt (create_meme_steps env req up)
        \<and> generate_news_meme env req up = attempt (generate_news_meme_steps env req up)
        \<and> puch_generate_meme env req up = attempt (puch_generate_meme_steps env req up))"
proof -
  have a: "\<forall>key. key \<in> set (missing env) \<longleftrightarrow>
            key \<in> set required \<and> (env key = None \<or> env key = Some [])"
    by (simp add: missing_iff)
  have b: "missing env = filter (\<lambda>key. key \<in> set (missing env)) required"
    by (simp add: missing_def cong: filter_cong)
  have c: "missing env \<noteq> [] \<longrightarrow>
          fetch_indian_news env req up = (Failure (missing_variables env), [])
        \<and> generate_meme_caption env req up = (Failure (missing_variables env), [])
        \<and> create_meme env req up = (Failure (missing_variables env), [])
        \<and> generate_news_meme env req up = (Failure (missing_variables env), [])
        \<and> puch_generate_meme env req up = (Failure (missing_variables env), [])"
    by (simp add: validateEnvVars_cases fetch_indian_news_def
        generate_meme_caption_def create_meme_def generate_news_meme_def puch_generate_meme_def)
  have d: "missing env = [] \<longrightarrow>
          validateEnvVars env = Inr ()
        \<and> fetch_indian_news env req up = attempt (fetch_indian_news_steps env req up)
        \<and> generate_meme_caption env req up = attempt (generate_meme_caption_steps env req up)
        \<and> create_meme env req up = attempt (create_meme_steps env req up)
        \<and> generate_news_meme env req up = attempt (generate_news_meme_steps env req up)
        \<and> puch_generate_meme env req up = attempt (puch_generate_meme_steps env req up)"
    by (simp add: validateEnvVars_cases fetch_indian_news_def
        generate_meme_caption_def create_meme_def generate_news_meme_def puch_generate_meme_def)
  from a b c d show ?thesis by (simp add: missing_variables_def)
qed

theorem credentials_checked_witness:
  "missing env_partial = [js ''GEMINI_API_KEY'', js ''IMGFLIP_PASSWORD'']
   \<and> create_meme env_partial empty_request no_upstream =
       (Failure (Error (js ''Missing required environment variables: GEMINI_API_KEY, IMGFLIP_PASSWORD'')), [])
   \<and> missing env_full = []
   \<and> create_meme env_full empty_request no_upstream =
       attempt (create_meme_steps env_full empty_request no_upstream)"
  using credentials_checked [of env_partial empty_request no_upstream]
    credentials_checked [of env_full empty_request no_upstream]
  by (simp add: missing_env_partial missing_env_full)

lemma checked_routes_fail:
  assumes "missing env \<noteq> []"
  shows "fetch_indian_news env req up = (Failure (missing_variables env), [])"
    and "generate_meme_caption env req up = (Failure (missing_variables env), [])"
    and "create_meme env req up = (Failure (missing_variables env), [])"
    and "generate_news_meme env req up = (Failure (missing_variables env), [])"
    and "puch_generate_meme env req up = (Failure (missing_variables env), [])"
  using assms
  by (simp_all add: validateEnvVars_cases fetch_indian_news_def
      generate_meme_caption_def create_meme_def generate_news_meme_def puch_generate_meme_def)

text \<open>
  C10. The handler of \<^verbatim>\<open>GET /get_meme_templates\<close> never looks at the configuration: its
  answer is the same under every environment and it always makes the template request,
  also when all four credentials are absent. Every other registered route answers, in
  that case, with the missing-variables error and makes no call.
\<close>

theorem templates_route_unchecked:
  "app GET (js ''/get_meme_templates'') = Some get_meme_templates
   \<and> get_meme_templates env req up = get_meme_templates env_none req up
   \<and> snd (get_meme_templates env_none req up) = [GetTemplates]
   \<and> missing env_none = required
   \<and> (\<forall>v path h. app v path = Some h \<longrightarrow> (v, path) \<noteq> (GET, js ''/get_meme_templates'') \<longrightarrow>
         h env_none req up = (Failure (missing_variables env_none), []))"
proof -
  have a: "app GET (js ''/get_meme_templates'') = Some get_meme_templates"
    by (simp add: app_def)
  have b: "get_meme_templates env req up = get_meme_templates env_none req up"
    by (simp add: get_meme_templates_def)
  have c: "snd (get_meme_templates env_none req up) = [GetTemplates]"
    by (rule get_meme_templates_calls)
  have m: "missing env_none \<noteq> []"
    by (simp add: missing_env_none required_def)
  have d: "h env_none req up = (Failure (missing_variables env_none), [])"
    if "app v path = Some h" "(v, path) \<noteq> (GET, js ''/get_meme_templates'')" for v path h
    using that checked_routes_fail [OF m, of req up]
    by (auto simp: app_def split: if_splits)
  from a b c d show ?thesis
    by (simp add: missing_env_none)
qed

theorem templates_route_unchecked_witness:
  "app POST (js ''/create_meme'') = Some create_meme
   \<and> create_meme env_none empty_request no_upstream =
       (Failure (Error (js ''Missing required environment variables: NEWSDATA_API_KEY, GEMINI_API_KEY, IMGFLIP_USERNAME, IMGFLIP_PASSWORD'')), [])
   \<and> get_meme_templates env_none empty_request no_upstream = (Failure Rejected, [GetTemplates])"
proof -
  have r: "app POST (js ''/create_meme'') = Some create_meme"
    by (simp add: app_def)
  have n: "(POST, js ''/create_meme'') \<noteq> (GET, js ''/get_meme_templates'')"
    by simp
  from templates_route_unchecked [of env_none empty_request no_upstream] r n
  have "create_meme env_none empty_request no_upstream = (Failure (missing_variables env_none), [])"
    by blast
  moreover have "get_meme_templates env_none empty_request no_upstream = (Failure Rejected, [GetTemplates])"
    by (simp add: get_meme_templates_def fetchImgflipTemplates_def fetch_def no_upstream_def
        bindIO_def)
  ultimately show ?thesis using r
    by (simp add: missing_variables_def missing_env_none required_def)
qed

subsection \<open>The render-only route\<close>

text \<open>
  C9. In a configured service, a request to \<^verbatim>\<open>/create_meme\<close> whose body has a falsy
  \<^verbatim>\<open>templateId\<close>, \<^verbatim>\<open>topText\<close> or \<^verbatim>\<open>bottomText\<close> is answered with the error
  \<^verbatim>\<open>Missing required parameters\<close> and the renderer is not called. The number \<open>0\<close> and the
  empty string, values of the declared field types, are falsy: the test is on
  truthiness, not on presence.
\<close>

theorem create_meme_rejects_falsy:
  assumes "missing env = []"
    and "\<not> nullish (payload req)"
    and "\<not> truthy (read (payload req) (js ''templateId''))
         \<or> \<not> truthy (read (payload req) (js ''topText''))
         \<or> \<not> truthy (read (payload req) (js ''bottomText''))"
  shows "create_meme env req up = (Failure (Error (js ''Missing required parameters'')), [])
         \<and> \<not> truthy (JNum (Fin 0)) \<and> \<not> truthy (JStr [])"
  using assms
  by (auto simp: create_meme_def create_meme_steps_def validateEnvVars_cases member_not_nullish
      Let_def missing_parameters_def)

theorem create_meme_rejects_falsy_witness:
  "create_meme env_full
     \<lparr>query = JObj [],
      payload = JObj [(js ''templateId'', JNum (Fin 0)), (js ''topText'', JStr (js ''a'')),
                      (js ''bottomText'', JStr (js ''b''))]\<rparr> up_no_url =
     (Failure (Error (js ''Missing required parameters'')), [])
   \<and> create_meme env_full
     \<lparr>query = JObj [],
      payload = JObj [(js ''templateId'', JNum (Fin 5)), (js ''topText'', JStr []),
                      (js ''bottomText'', JStr (js ''b''))]\<rparr> up_no_url =
     (Failure (Error (js ''Missing required parameters'')), [])"
  using
    create_meme_rejects_falsy [of env_full
      "\<lparr>query = JObj [],
        payload = JObj [(js ''templateId'', JNum (Fin 0)), (js ''topText'', JStr (js ''a'')),
                        (js ''bottomText'', JStr (js ''b''))]\<rparr>" up_no_url]
    create_meme_rejects_falsy [of env_full
      "\<lparr>query = JObj [],
        payload = JObj [(js ''templateId'', JNum (Fin 5)), (js ''topText'', JStr []),
                        (js ''bottomText'', JStr (js ''b''))]\<rparr>" up_no_url]
  by (simp add: missing_env_full)

subsection \<open>The two full pipelines\<close>

lemma pipeline_calls:
  assumes "fetchIndianNews up env topic = (r1, cs1)"
    and "fetchImgflipTemplates up = (r2, cs2)"
    and "generateCaption up env t d a = (r3, cs3)"
  shows "PostCaptionImage ps \<notin> set (cs1 @ cs2 @ cs3)"
proof -
  have "set cs1 \<subseteq> range GetNews"
    using fetchIndianNews_calls [of up env topic] assms(1) by simp
  moreover have "cs2 = [GetTemplates]"
    using fetchImgflipTemplates_calls [of up] assms(2) by simp
  moreover have "set cs3 \<subseteq> {c. \<exists>k p. c = PostGemini k p}"
    using generateCaption_calls [of up env t d a] assms(3) by simp
  ultimately show ?thesis by auto
qed

text \<open>
  C1. Take an execution of \<^verbatim>\<open>generate_news_meme\<close> or of \<^verbatim>\<open>puch_generate_meme\<close> that gets as
  far as caption generation (credentials present, a body, news found, an article with a
  title and a description selected, templates fetched), and in which \<^verbatim>\<open>generateCaption\<close>
  returns \<^verbatim>\<open>null\<close>. The flow answers with the error \<^verbatim>\<open>Failed to generate meme caption\<close>, and
  the calls it has made, those of the three steps before, contain no render request.
\<close>

theorem null_caption_aborts:
  assumes "missing env = []"
    and "\<not> nullish (payload req)"
    and "fetchIndianNews up env topic = (Inr news, cs1)"
    and "news \<noteq> []"
    and "element news (or_else (read (payload req) (js ''articleIndex'')) (JNum (Fin 0))) = Inr article"
    and "truthy (opt_member article (js ''title''))"
    and "truthy (opt_member article (js ''description''))"
    and "fetchImgflipTemplates up = (Inr templates, cs2)"
    and "generateCaption up env (read article (js ''title'')) (read article (js ''description''))
           (JArr (map JNum (map template_id templates))) = (Inr None, cs3)"
  shows "(topic = or_else (read (payload req) (js ''topic'')) (JStr []) \<longrightarrow>
            generate_news_meme env req up =
              (Failure (Error (js ''Failed to generate meme caption'')), cs1 @ cs2 @ cs3))
       \<and> (topic = or_else (or_else (read (payload req) (js ''topic''))
                      (opt_member (read (payload req) (js ''params'')) (js ''topic''))) (JStr [])
          \<and> truthy topic \<longrightarrow>
            puch_generate_meme env req up =
              (Failure (Error (js ''Failed to generate meme caption'')), cs1 @ cs2 @ cs3))
       \<and> (\<forall>ps. PostCaptionImage ps \<notin> set (cs1 @ cs2 @ cs3))"
proof -
  have a: "generate_news_meme env req up =
             (Failure (Error (js ''Failed to generate meme caption'')), cs1 @ cs2 @ cs3)"
    if "topic = or_else (read (payload req) (js ''topic'')) (JStr [])"
    using assms that
    by (simp add: generate_news_meme_def generate_news_meme_steps_def validateEnvVars_cases
        member_not_nullish Let_def bindIO_Inr throwIO_def)
  have b: "puch_generate_meme env req up =
             (Failure (Error (js ''Failed to generate meme caption'')), cs1 @ cs2 @ cs3)"
    if "topic = or_else (or_else (read (payload req) (js ''topic''))
                  (opt_member (read (payload req) (js ''params'')) (js ''topic''))) (JStr [])"
      and "truthy topic"
    using assms that
    by (simp add: puch_generate_meme_def puch_generate_meme_steps_def validateEnvVars_cases
        member_not_nullish Let_def bindIO_Inr throwIO_def)
  have c: "\<forall>ps. PostCaptionImage ps \<notin> set (cs1 @ cs2 @ cs3)"
    using pipeline_calls [OF assms(3) assms(8) assms(9)] by blast
  from a b c show ?thesis by blast
qed


lemma cricket_topic:
  "or_else (read (payload cricket_request) (js ''topic'')) (JStr []) = JStr (js ''cricket'')"
  "or_else (or_else (read (payload cricket_request) (js ''topic''))
      (opt_member (read (payload cricket_request) (js ''params'')) (js ''topic''))) (JStr []) =
   JStr (js ''cricket'')"
  "or_else (read (payload cricket_request) (js ''articleIndex'')) (JNum (Fin 0)) = JNum (Fin 0)"
  "\<not> nullish (payload cricket_request)"
  by (simp_all add: cricket_request_def)

lemma sample_article_fields:
  "read sample_article (js ''title'') = JStr (js ''India wins'')"
  "read sample_article (js ''description'') = JStr (js ''Historic victory'')"
  "opt_member sample_article (js ''title'') = JStr (js ''India wins'')"
  "opt_member sample_article (js ''description'') = JStr (js ''Historic victory'')"
  "read sample_article (js ''link'') = JUndefined"
  by (simp_all add: sample_article_def)

theorem null_caption_aborts_witness:
  "generate_news_meme env_full cricket_request up_no_caption =
     (Failure (Error (js ''Failed to generate meme caption'')), [news_call, GetTemplates, gemini_call])
   \<and> puch_generate_meme env_full cricket_request up_no_caption =
     (Failure (Error (js ''Failed to generate meme caption'')), [news_call, GetTemplates, gemini_call])"
proof -
  have news: "fetchIndianNews up_no_caption env_full (JStr (js ''cricket'')) =
      (Inr [sample_article], [news_call])"
    unfolding up_no_caption_def by (rule sample_news)
  have templates: "fetchImgflipTemplates up_no_caption = (Inr [sample_template], [GetTemplates])"
    unfolding up_no_caption_def by (rule sample_templates)
  have caption: "generateCaption up_no_caption env_full (read sample_article (js ''title''))
      (read sample_article (js ''description''))
      (JArr (map JNum (map template_id [sample_template]))) = (Inr None, [gemini_call])"
    unfolding up_no_caption_def
    by (simp add: sample_article_fields sample_template_def sample_no_caption)
  have article: "element [sample_article]
      (or_else (read (payload cricket_request) (js ''articleIndex'')) (JNum (Fin 0))) = Inr sample_article"
    by (simp add: cricket_topic sample_element)
  have title: "truthy (opt_member sample_article (js ''title''))"
    and description: "truthy (opt_member sample_article (js ''description''))"
    by (simp_all add: sample_article_fields)
  from null_caption_aborts [OF missing_env_full cricket_topic(4) news _ article title description
      templates caption]
  show ?thesis
    by (simp add: cricket_topic)
qed

text \<open>
  C3. Take an execution that gets as far as the render step, and in which \<^verbatim>\<open>generateMeme\<close>
  returns \<^verbatim>\<open>null\<close>, its value when the renderer's payload holds no URL (anything else it
  returns is truthy). \<^verbatim>\<open>generate_news_meme\<close> answers with success and a \<^verbatim>\<open>memeUrl\<close> of
  \<^verbatim>\<open>null\<close>; \<^verbatim>\<open>puch_generate_meme\<close>, which alone tests the URL, answers with the error
  \<^verbatim>\<open>Failed to create meme image\<close>.
\<close>

theorem only_puch_checks_url:
  assumes "missing env = []"
    and "\<not> nullish (payload req)"
    and "fetchIndianNews up env topic = (Inr news, cs1)"
    and "news \<noteq> []"
    and "element news (or_else (read (payload req) (js ''articleIndex'')) (JNum (Fin 0))) = Inr article"
    and "truthy (opt_member article (js ''title''))"
    and "truthy (opt_member article (js ''description''))"
    and "fetchImgflipTemplates up = (Inr templates, cs2)"
    and "generateCaption up env (read article (js ''title'')) (read article (js ''description''))
           (JArr (map JNum (map template_id templates))) = (Inr (Some c), cs3)"
    and "generateMeme up env (JNum (image' c)) (JStr (topText c)) (JStr (bottomText c)) = (Inr JNull, cs4)"
  shows "(topic = or_else (read (payload req) (js ''topic'')) (JStr []) \<longrightarrow>
            generate_news_meme env req up =
              (Success (JObj
                 [(js ''success'', JBool True),
                  (js ''article'', JObj [(js ''title'', read article (js ''title'')),
                                        (js ''description'', read article (js ''description''))]),
                  (js ''caption'', caption_json c),
                  (js ''memeUrl'', JNull)]),
               cs1 @ cs2 @ cs3 @ cs4))
       \<and> (topic = or_else (or_else (read (payload req) (js ''topic''))
                      (opt_member (read (payload req) (js ''params'')) (js ''topic''))) (JStr [])
          \<and> truthy topic \<longrightarrow>
            puch_generate_meme env req up =
              (Failure (Error (js ''Failed to create meme image'')), cs1 @ cs2 @ cs3 @ cs4))
       \<and> (\<forall>i t b v. fst (generateMeme up env i t b) = Inr v \<longrightarrow> v = JNull \<or> truthy v)"
proof -
  have a: "generate_news_meme env req up =
              (Success (JObj
                 [(js ''success'', JBool True),
                  (js ''article'', JObj [(js ''title'', read article (js ''title'')),
                                        (js ''description'', read article (js ''description''))]),
                  (js ''caption'', caption_json c),
                  (js ''memeUrl'', JNull)]),
               cs1 @ cs2 @ cs3 @ cs4)"
    if "topic = or_else (read (payload req) (js ''topic'')) (JStr [])"
    using assms that
    by (simp add: generate_news_meme_def generate_news_meme_steps_def validateEnvVars_cases
        member_not_nullish Let_def bindIO_Inr returnIO_def)
  have b: "puch_generate_meme env req up =
             (Failure (Error (js ''Failed to create meme image'')), cs1 @ cs2 @ cs3 @ cs4)"
    if "topic = or_else (or_else (read (payload req) (js ''topic''))
                  (opt_member (read (payload req) (js ''params'')) (js ''topic''))) (JStr [])"
      and "truthy topic"
    using assms that
    by (simp add: puch_generate_meme_def puch_generate_meme_steps_def validateEnvVars_cases
        member_not_nullish Let_def bindIO_Inr throwIO_def)
  have c: "\<forall>i t b v. fst (generateMeme up env i t b) = Inr v \<longrightarrow> v = JNull \<or> truthy v"
    by (blast dest: generateMeme_result)
  from a b c show ?thesis by blast
qed

theorem only_puch_checks_url_witness:
  "generate_news_meme env_full cricket_request up_no_url =
     (Success (JObj
        [(js ''success'', JBool True),
         (js ''article'', JObj [(js ''title'', JStr (js ''India wins'')),
                               (js ''description'', JStr (js ''Historic victory''))]),
         (js ''caption'', caption_json sample_caption),
         (js ''memeUrl'', JNull)]),
      [news_call, GetTemplates, gemini_call, render_call])
   \<and> puch_generate_meme env_full cricket_request up_no_url =
     (Failure (Error (js ''Failed to create meme image'')),
      [news_call, GetTemplates, gemini_call, render_call])"
proof -
  have news: "fetchIndianNews up_no_url env_full (JStr (js ''cricket'')) =
      (Inr [sample_article], [news_call])"
    unfolding up_no_url_def by (rule sample_news)
  have templates: "fetchImgflipTemplates up_no_url = (Inr [sample_template], [GetTemplates])"
    unfolding up_no_url_def by (rule sample_templates)
  have caption: "generateCaption up_no_url env_full (read sample_article (js ''title''))
      (read sample_article (js ''description''))
      (JArr (map JNum (map template_id [sample_template]))) = (Inr (Some sample_caption), [gemini_call])"
    unfolding up_no_url_def
    by (simp add: sample_article_fields sample_template_def sample_caption_generated)
  have render: "generateMeme up_no_url env_full (JNum (image' sample_caption))
      (JStr (topText sample_caption)) (JStr (bottomText sample_caption)) = (Inr JNull, [render_call])"
    unfolding up_no_url_def
    by (simp add: sample_caption_def sample_no_url)
  have article: "element [sample_article]
      (or_else (read (payload cricket_request) (js ''articleIndex'')) (JNum (Fin 0))) = Inr sample_article"
    by (simp add: cricket_topic sample_element)
  have title: "truthy (opt_member sample_article (js ''title''))"
    and description: "truthy (opt_member sample_article (js ''description''))"
    by (simp_all add: sample_article_fields)
  from only_puch_checks_url [OF missing_env_full cricket_topic(4) news _ article title description
      templates caption render]
  show ?thesis
    by (simp add: cricket_topic sample_article_fields)
qed

subsection \<open>The news client\<close>

lemma fetchIndianNews_defaults_to_empty:
  assumes "\<And>ps. up (GetNews ps) = Inr res"
    and "ok res" "body res = Inr data" "\<not> nullish data"
    and "\<And>xs. read data (js ''results'') \<noteq> JArr xs"
  shows "fst (fetchIndianNews up env (JStr t)) = Inr []"
  using assms
  by (simp add: fetchIndianNews_def env_read_def Let_def fetch_def bindIO_Inr member_not_nullish
      returnIO_def split: option.splits jsval.splits)

text \<open>
  C7, at the input where it fails. The news API answers with status 200 and the JSON
  body \<^verbatim>\<open>null\<close>: a parsed body without a \<^verbatim>\<open>results\<close> list. \<^verbatim>\<open>data.results\<close> is then a property
  read on \<^verbatim>\<open>null\<close> and \<^verbatim>\<open>fetchIndianNews\<close> throws a \<open>TypeError\<close> where the claim has it return the
  empty sequence.
\<close>

theorem null_news_body_throws:
  "fetchIndianNews up_null_news env_full (JStr (js ''cricket'')) = (Inl TypeError, [news_call])"
  by (simp add: fetchIndianNews_def env_read_def Let_def trim_cricket fetch_def up_null_news_def
      upstream_of_def ok200_def bindIO_Inr throwIO_def news_call_def)


subsection \<open>The template client\<close>

lemma sequenceE_Inr:
  "sequenceE (map f xs) = Inr ys \<longleftrightarrow>
     length ys = length xs \<and> (\<forall>i<length xs. f (xs ! i) = Inr (ys ! i))"
proof (induction xs arbitrary: ys)
  case Nil
  then show ?case by auto
next
  case (Cons x xs)
  show ?case
  proof (cases "f x")
    case (Inl e)
    then show ?thesis by auto
  next
    case (Inr y)
    show ?thesis
    proof (cases ys)
      case Nil
      with Inr show ?thesis by (simp split: sum.splits)
    next
      case (Cons z zs)
      have "(\<forall>i<Suc (length xs). f ((x # xs) ! i) = Inr ((z # zs) ! i))
          \<longleftrightarrow> f x = Inr z \<and> (\<forall>i<length xs. f (xs ! i) = Inr (zs ! i))"
        by (auto simp: nth_Cons split: nat.splits)
      with Inr Cons Cons.IH [of zs] show ?thesis
        by (auto split: sum.splits)
    qed
  qed
qed

lemma sequenceE_Inl:
  "sequenceE (map f xs) = Inl e \<Longrightarrow> \<exists>x\<in>set xs. f x = Inl e"
proof (induction xs)
  case Nil
  then show ?case by simp
next
  case (Cons x xs)
  then show ?case by (cases "f x") (auto split: sum.splits)
qed

lemma sequenceE_returns:
  "(\<exists>ys. sequenceE (map f xs) = Inr ys) \<longleftrightarrow> (\<forall>x\<in>set xs. \<exists>y. f x = Inr y)"
proof
  assume "\<exists>ys. sequenceE (map f xs) = Inr ys"
  then obtain ys where "sequenceE (map f xs) = Inr ys" ..
  then have "\<forall>i<length xs. f (xs ! i) = Inr (ys ! i)" by (simp add: sequenceE_Inr)
  then show "\<forall>x\<in>set xs. \<exists>y. f x = Inr y" by (metis in_set_conv_nth)
next
  assume a: "\<forall>x\<in>set xs. \<exists>y. f x = Inr y"
  show "\<exists>ys. sequenceE (map f xs) = Inr ys"
  proof (cases "sequenceE (map f xs)")
    case (Inl e)
    from sequenceE_Inl [OF this] a show ?thesis by auto
  next
    case (Inr ys)
    then show ?thesis by blast
  qed
qed

lemma to_string_error: "to_string v = Inl e \<Longrightarrow> e = TypeError"
proof (induction v arbitrary: e rule: to_string.induct)
  case (6 xs)
  then obtain e' where "sequenceE (map (\<lambda>x. if nullish x then Inr [] else to_string x) xs) = Inl e'" "e' = e"
    by (auto split: sum.splits)
  from sequenceE_Inl [OF this(1)] this(2) obtain x where "x \<in> set xs" "\<not> nullish x" "to_string x = Inl e"
    by (auto split: if_splits)
  with 6 show ?case by blast
qed (auto split: if_splits)

lemma to_number_error:
  assumes "to_number v = Inl e"
  shows "e = TypeError"
proof (cases "to_string v")
  case (Inl e')
  then have "e' = TypeError" by (rule to_string_error)
  with Inl assms show ?thesis
    by (cases v) (simp_all add: to_number_def del: to_string.simps)
next
  case (Inr s)
  with assms show ?thesis
    by (cases v) (simp_all add: to_number_def del: to_string.simps)
qed

lemma project_Inr:
  "project m = Inr t \<longleftrightarrow>
     \<not> nullish m \<and> to_number (read m (js ''id'')) = Inr (template_id t)
       \<and> template_name t = read m (js ''name'')"
  by (cases "to_number (read m (js ''id''))") (auto simp: project_def)

lemma project_returns:
  "(\<exists>t. project m = Inr t) \<longleftrightarrow> \<not> nullish m \<and> (\<exists>n. to_number (read m (js ''id'')) = Inr n)"
  by (cases "to_number (read m (js ''id''))") (auto simp: project_def)

lemma project_error: "project m = Inl e \<Longrightarrow> e = TypeError"
  by (cases "to_number (read m (js ''id''))") (auto simp: project_def dest: to_number_error split: if_splits)

lemma fetchImgflipTemplates_result:
  assumes "up GetTemplates = Inr res" "ok res" "body res = Inr json"
    "truthy (read json (js ''success''))"
  shows "fst (fetchImgflipTemplates up) =
     (case read (read json (js ''data'')) (js ''memes'') of
        JArr ms \<Rightarrow> sequenceE (map project (take 100 ms))
      | _ \<Rightarrow> Inl TypeError)"
proof -
  have json: "\<not> nullish json"
    using assms(4) by (auto simp: nullish_def read_def)
  show ?thesis
  proof (cases "nullish (read json (js ''data''))")
    case True
    then have "read (read json (js ''data'')) (js ''memes'') = JUndefined"
      by (auto simp: nullish_def read_def)
    with True assms json show ?thesis
      by (simp add: fetchImgflipTemplates_def fetch_def bindIO_Inr member_not_nullish liftE_def
          member_def throwIO_def)
  next
    case False
    with assms json show ?thesis
      by (cases "read (read json (js ''data'')) (js ''memes'')")
        (simp_all add: fetchImgflipTemplates_def fetch_def bindIO_Inr member_not_nullish liftE_def
          throwIO_def)
  qed
qed

text \<open>
  C4, as stated, fails: a true success flag does not make the payload a catalog. With no
  \<^verbatim>\<open>data\<close> member, and with a \<^verbatim>\<open>null\<close> entry in \<^verbatim>\<open>data.memes\<close>, the method throws a
  \<open>TypeError\<close> and returns no sequence.
\<close>

theorem catalog_without_memes_throws:
  "truthy (read bare_catalog (js ''success''))
   \<and> fetchImgflipTemplates (upstream_of news_body bare_catalog (JObj []) (JObj [])) = (Inl TypeError, [GetTemplates])
   \<and> truthy (read null_entry_catalog (js ''success''))
   \<and> fetchImgflipTemplates (upstream_of news_body null_entry_catalog (JObj []) (JObj [])) = (Inl TypeError, [GetTemplates])"
  by (simp add: bare_catalog_def null_entry_catalog_def fetchImgflipTemplates_def fetch_def
      upstream_of_def ok200_def bindIO_Inr liftE_def throwIO_def project_def)

text \<open>
  C4, amended. When the catalog request answers with a payload whose success flag is true
  (truthy is enough for the code), \<^verbatim>\<open>fetchImgflipTemplates\<close> makes that one request and
  either returns or throws a \<open>TypeError\<close>. What it returns is the first 100 entries of
  \<^verbatim>\<open>data.memes\<close>, in order: at most 100 elements, the \<open>i\<close>-th with \<^verbatim>\<open>Number(id)\<close> of the
  \<open>i\<close>-th entry as its \<^verbatim>\<open>id\<close> and with that entry's \<^verbatim>\<open>name\<close>. It returns exactly when
  \<^verbatim>\<open>data.memes\<close> is an array whose first 100 entries are neither \<^verbatim>\<open>null\<close> nor \<^verbatim>\<open>undefined\<close>
  and have an \<^verbatim>\<open>id\<close> that \<^verbatim>\<open>Number\<close> converts without throwing.
\<close>

theorem templates_truncated_and_projected:
  assumes "up GetTemplates = Inr res"
    and "ok res"
    and "body res = Inr json"
    and "truthy (read json (js ''success''))"
  shows "snd (fetchImgflipTemplates up) = [GetTemplates]
     \<and> (\<forall>ts. fst (fetchImgflipTemplates up) = Inr ts \<longrightarrow>
          length ts \<le> 100
          \<and> (\<exists>ms. read (read json (js ''data'')) (js ''memes'') = JArr ms
                \<and> length ts = min 100 (length ms)
                \<and> (\<forall>i<length ts. to_number (read (ms ! i) (js ''id'')) = Inr (template_id (ts ! i))
                                 \<and> template_name (ts ! i) = read (ms ! i) (js ''name''))))
     \<and> ((\<exists>ts. fst (fetchImgflipTemplates up) = Inr ts) \<longleftrightarrow>
          (\<exists>ms. read (read json (js ''data'')) (js ''memes'') = JArr ms
             \<and> (\<forall>m\<in>set (take 100 ms). \<not> nullish m \<and> (\<exists>n. to_number (read m (js ''id'')) = Inr n))))
     \<and> (\<forall>e. fst (fetchImgflipTemplates up) = Inl e \<longrightarrow> e = TypeError)"
proof (intro conjI allI impI)
  note r = fetchImgflipTemplates_result [where up = up and res = res and json = json, OF assms]
  show "snd (fetchImgflipTemplates up) = [GetTemplates]"
    by (rule fetchImgflipTemplates_calls)
  show "e = TypeError" if "fst (fetchImgflipTemplates up) = Inl e" for e
    using that unfolding r
    by (cases "read (read json (js ''data'')) (js ''memes'')")
      (auto dest!: sequenceE_Inl dest: project_error)
  show "(\<exists>ts. fst (fetchImgflipTemplates up) = Inr ts) \<longleftrightarrow>
          (\<exists>ms. read (read json (js ''data'')) (js ''memes'') = JArr ms
             \<and> (\<forall>m\<in>set (take 100 ms). \<not> nullish m \<and> (\<exists>n. to_number (read m (js ''id'')) = Inr n)))"
    unfolding r
    by (cases "read (read json (js ''data'')) (js ''memes'')")
      (simp_all add: sequenceE_returns project_returns)
  fix ts
  assume ts: "fst (fetchImgflipTemplates up) = Inr ts"
  then obtain ms where ms: "read (read json (js ''data'')) (js ''memes'') = JArr ms"
    and s: "sequenceE (map project (take 100 ms)) = Inr ts"
    unfolding r by (cases "read (read json (js ''data'')) (js ''memes'')") simp_all
  from s have len: "length ts = length (take 100 ms)"
    and each: "\<forall>i<length (take 100 ms). project (take 100 ms ! i) = Inr (ts ! i)"
    by (simp_all add: sequenceE_Inr)
  from len show "length ts \<le> 100" by simp
  have "to_number (read (ms ! i) (js ''id'')) = Inr (template_id (ts ! i))
        \<and> template_name (ts ! i) = read (ms ! i) (js ''name'')" if "i < length ts" for i
  proof -
    from that len have i: "i < length (take 100 ms)" by simp
    then have "take 100 ms ! i = ms ! i" by simp
    with each i have "project (ms ! i) = Inr (ts ! i)" by metis
    then show ?thesis by (simp add: project_Inr)
  qed
  with ms len show "\<exists>ms. read (read json (js ''data'')) (js ''memes'') = JArr ms
                \<and> length ts = min 100 (length ms)
                \<and> (\<forall>i<length ts. to_number (read (ms ! i) (js ''id'')) = Inr (template_id (ts ! i))
                                 \<and> template_name (ts ! i) = read (ms ! i) (js ''name''))"
    by (intro exI [of _ ms]) simp
qed

theorem templates_truncated_and_projected_witness:
  "\<exists>ts. fetchImgflipTemplates up_big_catalog = (Inr ts, [GetTemplates]) \<and> length ts = 100
        \<and> (\<forall>i<100. template_id (ts ! i) = Fin 1 \<and> template_name (ts ! i) = JStr (js ''Drake''))"
proof -
  let ?m = "JObj [(js ''id'', JStr (js ''1'')), (js ''name'', JStr (js ''Drake''))]"
  let ?res = "\<lparr>ok = True, status = 200, statusText = js ''OK'', body = Inr big_catalog\<rparr>"
  have up: "up_big_catalog GetTemplates = Inr ?res"
    by (simp add: up_big_catalog_def upstream_of_def ok200_def)
  have ms: "read (read big_catalog (js ''data'')) (js ''memes'') = JArr (replicate 101 ?m)"
    by (simp add: big_catalog_def)
  have t: "truthy (read big_catalog (js ''success''))"
    by (simp add: big_catalog_def)
  have c4: "snd (fetchImgflipTemplates up_big_catalog) = [GetTemplates]
     \<and> (\<forall>ts. fst (fetchImgflipTemplates up_big_catalog) = Inr ts \<longrightarrow>
          length ts \<le> 100
          \<and> (\<exists>ms. read (read big_catalog (js ''data'')) (js ''memes'') = JArr ms
                \<and> length ts = min 100 (length ms)
                \<and> (\<forall>i<length ts. to_number (read (ms ! i) (js ''id'')) = Inr (template_id (ts ! i))
                                 \<and> template_name (ts ! i) = read (ms ! i) (js ''name''))))
     \<and> ((\<exists>ts. fst (fetchImgflipTemplates up_big_catalog) = Inr ts) \<longleftrightarrow>
          (\<exists>ms. read (read big_catalog (js ''data'')) (js ''memes'') = JArr ms
             \<and> (\<forall>m\<in>set (take 100 ms). \<not> nullish m \<and> (\<exists>n. to_number (read m (js ''id'')) = Inr n))))
     \<and> (\<forall>e. fst (fetchImgflipTemplates up_big_catalog) = Inl e \<longrightarrow> e = TypeError)"
    by (rule templates_truncated_and_projected [where res = ?res]) (simp_all add: up t)
  have shape: "\<exists>ms. read (read big_catalog (js ''data'')) (js ''memes'') = JArr ms
      \<and> (\<forall>m\<in>set (take 100 ms). \<not> nullish m \<and> (\<exists>n. to_number (read m (js ''id'')) = Inr n))"
    unfolding ms by simp
  with c4 obtain ts where ts: "fst (fetchImgflipTemplates up_big_catalog) = Inr ts" by blast
  with c4 obtain ms' where m': "read (read big_catalog (js ''data'')) (js ''memes'') = JArr ms'"
    "length ts = min 100 (length ms')"
    "\<forall>i<length ts. to_number (read (ms' ! i) (js ''id'')) = Inr (template_id (ts ! i))
                    \<and> template_name (ts ! i) = read (ms' ! i) (js ''name'')"
    by blast
  from m'(1) ms have e: "ms' = replicate 101 ?m" by simp
  from m'(2) have len: "length ts = 100" by (simp add: e)
  have "template_id (ts ! i) = Fin 1 \<and> template_name (ts ! i) = JStr (js ''Drake'')" if "i < 100" for i
    using m'(3) len that unfolding e by (auto simp: string_to_number_1)
  moreover from c4 ts have "fetchImgflipTemplates up_big_catalog = (Inr ts, [GetTemplates])"
    by (metis prod.collapse)
  ultimately show ?thesis using len by blast
qed

subsection \<open>Caption parsing\<close>

lemma lex_empty_object: "tokenize (js ''{}'') = Some [LBrace, RBrace]"
  by (simp add: js_unfold tokenize.simps)

lemma clean_empty_object: "clean (js ''{}'') = js ''{}''"
  by (simp add: clean_def js_unfold remove_all.simps trim_def is_space_def)

lemma JSON_parse_empty_object: "JSON_parse (js ''{}'') = Inr (JObj [])"
  by (simp add: JSON_parse_def lex_empty_object)

lemma clean_open_brace: "clean (js ''{'') = js ''{''"
  by (simp add: clean_def js_unfold remove_all.simps trim_def is_space_def)

lemma JSON_parse_open_brace: "JSON_parse (js ''{'') = Inl SyntaxError"
  by (simp add: JSON_parse_def js_unfold tokenize.simps)

lemma clean_plain_text: "clean (js ''no meme today'') = js ''no meme today''"
  by (simp add: clean_def js_unfold remove_all.simps trim_def is_space_def)

lemma JSON_parse_plain_text: "JSON_parse (js ''no meme today'') = Inl SyntaxError"
  by (simp add: JSON_parse_def js_unfold tokenize.simps is_digit_def)

text \<open>
  C5. \<^verbatim>\<open>parseMemeCaption\<close> returns for every argument, with a caption or with \<^verbatim>\<open>null\<close>; it
  never ends in an exception. Whatever is thrown inside its \<^verbatim>\<open>try\<close> block, in particular
  the \<open>SyntaxError\<close> of \<^verbatim>\<open>JSON.parse\<close> on text that is not JSON, becomes the result
  \<^verbatim>\<open>null\<close>.
\<close>

theorem parse_never_raises:
  "(\<forall>e. parseMemeCaption v \<noteq> Inl e)
   \<and> (parseMemeCaption v = Inr None \<or> (\<exists>c. parseMemeCaption v = Inr (Some c)))
   \<and> (\<forall>e. parseMemeCaption_try v = Inl e \<longrightarrow> parseMemeCaption v = Inr None)
   \<and> (\<forall>s e. v = JStr s \<and> JSON_parse (clean s) = Inl e \<longrightarrow> parseMemeCaption v = Inr None)"
  by (auto simp: parseMemeCaption_def parseMemeCaption_try_def split: sum.splits)

theorem parse_never_raises_witness:
  "JSON_parse (clean (js ''{'')) = Inl SyntaxError
   \<and> parseMemeCaption (JStr (js ''{'')) = Inr None
   \<and> JSON_parse (clean (js ''no meme today'')) = Inl SyntaxError
   \<and> parseMemeCaption (JStr (js ''no meme today'')) = Inr None"
  using parse_never_raises [of "JStr (js ''{'')"] parse_never_raises [of "JStr (js ''no meme today'')"]
  by (simp add: clean_open_brace JSON_parse_open_brace clean_plain_text JSON_parse_plain_text)

text \<open>
  C2, as stated, fails: the text \<^verbatim>\<open>{}\<close> parses to a caption whose \<^verbatim>\<open>image\<close> is
  \<^verbatim>\<open>Number(undefined)\<close>, that is \<^verbatim>\<open>NaN\<close>, not a finite integer.
\<close>

theorem parsed_image_not_finite:
  "parseMemeCaption (JStr (js ''{}'')) = Inr (Some nan_caption) \<and> \<not> is_finite_integer (image' nan_caption)"
  by (simp add: parseMemeCaption_def parseMemeCaption_try_def clean_empty_object
      JSON_parse_empty_object nan_caption_def is_finite_integer_def)

text \<open>
  C2, amended. A caption returned by \<^verbatim>\<open>parseMemeCaption\<close> for a string is made of coercions
  of the members of the parsed JSON value: its \<^verbatim>\<open>image\<close> is the number \<^verbatim>\<open>Number(json.image)\<close>,
  which may be \<^verbatim>\<open>NaN\<close>, infinite or fractional, and its two texts are the strings
  \<^verbatim>\<open>String(json.topText)\<close> and \<^verbatim>\<open>String(json.bottomText)\<close>.
\<close>

theorem parsed_caption_coerced:
  assumes "parseMemeCaption (JStr s) = Inr (Some c)"
  shows "\<exists>json. JSON_parse (clean s) = Inr json \<and> \<not> nullish json
           \<and> to_number (read json (js ''image'')) = Inr (image' c)
           \<and> to_string (read json (js ''topText'')) = Inr (topText c)
           \<and> to_string (read json (js ''bottomText'')) = Inr (bottomText c)
           \<and> caption_json c =
               JObj [(js ''image'', JNum (image' c)), (js ''topText'', JStr (topText c)),
                     (js ''bottomText'', JStr (bottomText c))]"
  using assms
  by (auto simp: parseMemeCaption_def parseMemeCaption_try_def member_def caption_json_def
      bindE_def split: sum.splits if_splits)

theorem parsed_caption_coerced_witness:
  "parseMemeCaption (JStr sample_caption_text) = Inr (Some sample_caption)
   \<and> (\<exists>json. JSON_parse (clean sample_caption_text) = Inr json
         \<and> to_number (read json (js ''image'')) = Inr (Fin 1)
         \<and> to_string (read json (js ''topText'')) = Inr (js ''When India wins''))"
  using parsed_caption_coerced [OF sample_parse]
  by (auto simp: sample_parse sample_caption_def)

subsection \<open>Round trip of a string\<close>

lemma unat_hex_char: "d < 16 \<Longrightarrow> unat (hex_char d) = (if d < 10 then 48 + d else 87 + d)"
  unfolding hex_char_def by (simp del: of_nat_add add: unat_of_nat)

lemma hex_char_digit: "d < 16 \<Longrightarrow> radix_digit (hex_char d) = Some d"
  by (simp add: radix_digit_def word_le_nat_alt unat_hex_char)

lemma radix_value_hex4: "radix_value 16 (hex4 c) = Some (unat c)"
proof -
  define n where "n = unat c"
  define n1 where "n1 = n div 16"
  define n2 where "n2 = n1 div 16"
  have "n < 65536" using unsigned_less [of c, where 'a = nat] by (simp add: n_def)
  then have d: "n2 div 16 < 16" by (simp add: n2_def n1_def)
  have "16 * (n2 div 16) + n2 mod 16 = n2" "16 * n2 + n1 mod 16 = n1" "16 * n1 + n mod 16 = n"
    by (simp_all add: n2_def n1_def)
  then have "16 * (16 * (16 * (n2 div 16) + n2 mod 16) + n1 mod 16) + n mod 16 = n"
    by simp
  then show ?thesis
    using d
    by (simp add: radix_value_def hex4_def Let_def hex_char_digit n_def [symmetric]
        n1_def [symmetric] n2_def [symmetric])
qed

lemma length_hex4 [simp]: "length (hex4 c) = 4"
  by (simp add: hex4_def Let_def)

lemma lex_string_escape:
  assumes "lex_string (s @ 0x22 # rest) = Some (t, rest)"
  shows "lex_string (escape_unit c @ s @ 0x22 # rest) = Some (c # t, rest)"
proof -
  consider (short) "c \<in> {0x08, 0x09, 0x0A, 0x0C, 0x0D, 0x22, 0x5C}"
    | (hex) "c \<notin> {0x08, 0x09, 0x0A, 0x0C, 0x0D, 0x22, 0x5C}" "c < 0x20 \<or> is_high c \<or> is_low c"
    | (plain) "c \<notin> {0x08, 0x09, 0x0A, 0x0C, 0x0D, 0x22, 0x5C}" "\<not> (c < 0x20 \<or> is_high c \<or> is_low c)"
    by blast
  then show ?thesis
  proof cases
    case short
    then show ?thesis
      using assms by (auto simp: escape_unit_def unescape_def cons_result_def)
  next
    case hex
    then show ?thesis
      using assms by (simp add: escape_unit_def radix_value_hex4 cons_result_def)
  next
    case plain
    then show ?thesis
      using assms by (simp add: escape_unit_def cons_result_def)
  qed
qed

lemma lex_string_plain:
  assumes "c \<noteq> 0x22" "c \<noteq> 0x5C" "\<not> c < 0x20"
  shows "lex_string (c # s) = cons_result c (lex_string s)"
  using assms by simp

lemma surrogate_plain:
  assumes "is_high c \<or> is_low c"
  shows "c \<noteq> 0x22" "c \<noteq> 0x5C" "\<not> c < 0x20"
  using assms by (auto simp: is_high_def is_low_def word_le_nat_alt word_less_nat_alt)

lemma lex_string_quote_body: "lex_string (quote_body s @ 0x22 # rest) = Some (s, rest)"
proof (induction s rule: quote_body.induct)
  case 1
  then show ?case by simp
next
  case (2 c)
  have "lex_string ([] @ 0x22 # rest) = Some ([], rest)" by simp
  from lex_string_escape [OF this] show ?case by simp
next
  case (3 c d cs)
  show ?case
  proof (cases "is_high c \<and> is_low d")
    case True
    with 3 have IH: "lex_string (quote_body cs @ 0x22 # rest) = Some (cs, rest)" by simp
    have "lex_string (quote_body (c # d # cs) @ 0x22 # rest) =
        lex_string (c # d # quote_body cs @ 0x22 # rest)"
      using True by simp
    also have "\<dots> = cons_result c (lex_string (d # quote_body cs @ 0x22 # rest))"
      using True by (intro lex_string_plain surrogate_plain) simp_all
    also have "\<dots> = cons_result c (cons_result d (lex_string (quote_body cs @ 0x22 # rest)))"
    proof -
      have "is_high d \<or> is_low d" using True by simp
      from lex_string_plain [OF surrogate_plain [OF this]] show ?thesis by simp
    qed
    also have "\<dots> = Some (c # d # cs, rest)"
      by (simp add: IH cons_result_def)
    finally show ?thesis .
  next
    case False
    with 3 have "lex_string (quote_body (d # cs) @ 0x22 # rest) = Some (d # cs, rest)" by simp
    from lex_string_escape [OF this, of c] False show ?thesis
      by (auto simp del: lex_string.simps)
  qed
qed


subsection \<open>Round trip of an integer\<close>

lemma num_to_string_safe:
  assumes "0 < a" "a < 2 ^ 53"
  shows "num_to_string (Fin (of_int a)) = digits_of (nat a)"
    and "num_to_string (Fin (- of_int a)) = 0x2D # digits_of (nat a)"
proof -
  have small: "(of_int a :: rat) < 2 ^ 53"
    using assms(2) by (metis of_int_less_numeral_power_cancel_iff)
  have fl: "of_int \<lfloor>of_int a :: rat\<rfloor> = (of_int a :: rat)" by simp
  have pos: "\<bar>of_int a :: rat\<bar> = of_int a" "\<bar>- of_int a :: rat\<bar> = of_int a"
    using assms(1) by simp_all
  have nz: "(of_int a :: rat) \<noteq> 0" "- (of_int a :: rat) \<noteq> 0" "\<not> (of_int a :: rat) < 0"
    "- (of_int a :: rat) < 0"
    using assms(1) by simp_all
  show "num_to_string (Fin (of_int a)) = digits_of (nat a)"
    unfolding num_to_string_def jsnum.case Let_def pos
    by (simp only: nz fl small if_True if_False simp_thms append_Nil floor_of_int)
  show "num_to_string (Fin (- of_int a)) = 0x2D # digits_of (nat a)"
    unfolding num_to_string_def jsnum.case Let_def pos
    by (simp only: nz fl small if_True if_False simp_thms append_Cons append_Nil floor_of_int)
qed

lemma num_to_string_int:
  assumes "\<bar>n\<bar> < 2 ^ 53"
  shows "num_to_string (Fin (of_int n)) = (if n < 0 then [0x2D] else []) @ digits_of (nat \<bar>n\<bar>)"
proof -
  consider "n = 0" | "0 < n" | "n < 0" by linarith
  then show ?thesis
  proof cases
    case 1
    then show ?thesis
      by (simp add: num_to_string_def digits_of.simps digit_char_def js_unfold)
  next
    case 2
    with assms num_to_string_safe(1) [of n] show ?thesis by simp
  next
    case 3
    with assms num_to_string_safe(2) [of "- n"] show ?thesis by simp
  qed
qed

lemma takeWhile_until:
  "list_all P xs \<Longrightarrow> \<not> P c \<Longrightarrow> takeWhile P (xs @ c # r) = xs"
  by (induction xs) simp_all

lemma dropWhile_until:
  "list_all P xs \<Longrightarrow> \<not> P c \<Longrightarrow> dropWhile P (xs @ c # r) = c # r"
  by (induction xs) simp_all

lemma digits_of_Cons: "\<exists>d ds. digits_of m = d # ds \<and> is_digit d"
  using digits_of_nonempty [of m] digits_of_all_digits [of m]
  by (cases "digits_of m") simp_all

lemma no_leading_zero: "\<not> (1 < length (digits_of m) \<and> hd (digits_of m) = 0x30)"
proof (cases "m = 0")
  case True
  then show ?thesis by (simp add: digits_of.simps)
next
  case False
  then show ?thesis using hd_digits_of [of m] by simp
qed

lemma decimal_value_digits: "decimal_value (digits_of m) [] 0 = of_nat m"
  by (simp add: decimal_value_def digits_val_digits_of pow_def)

lemma lex_number_digits:
  assumes "int m < 2 ^ 53"
  shows "lex_number (digits_of m @ 0x2C # rest) = Some (Fin (of_nat m), 0x2C # rest)"
proof -
  obtain d ds where d: "digits_of m = d # ds" "is_digit d"
    using digits_of_Cons by blast
  then have nd: "d \<noteq> 0x2D" by (auto simp: is_digit_def)
  have c: "\<not> is_digit 0x2C" by (simp add: is_digit_def)
  have t: "takeWhile is_digit (digits_of m @ 0x2C # rest) = digits_of m"
    and r: "dropWhile is_digit (digits_of m @ 0x2C # rest) = 0x2C # rest"
    using digits_of_all_digits c by (rule takeWhile_until, rule dropWhile_until)
  have neg: "\<not> take 1 (digits_of m @ 0x2C # rest) = [0x2D]"
    using d nd by simp
  have v: "round64 (of_nat m) = Fin (of_nat m)"
    using round64_of_int [of "int m"] assms by simp
  show ?thesis
    unfolding lex_number_def Let_def
    using no_leading_zero [of m] digits_of_nonempty [of m]
    by (simp only: neg if_False t r) (simp add: split_fraction_def split_exponent_def decimal_value_digits v)
qed

lemma lex_number_negative:
  assumes "int m < 2 ^ 53"
  shows "lex_number (0x2D # digits_of m @ 0x2C # rest) = Some (Fin (- of_nat m), 0x2C # rest)"
proof -
  have c: "\<not> is_digit 0x2C" by (simp add: is_digit_def)
  have t: "takeWhile is_digit (digits_of m @ 0x2C # rest) = digits_of m"
    and r: "dropWhile is_digit (digits_of m @ 0x2C # rest) = 0x2C # rest"
    using digits_of_all_digits c by (rule takeWhile_until, rule dropWhile_until)
  have v: "round64 (of_nat m) = Fin (of_nat m)"
    using round64_of_int [of "int m"] assms by simp
  show ?thesis
    unfolding lex_number_def Let_def
    using no_leading_zero [of m] digits_of_nonempty [of m]
    by (simp add: t r split_fraction_def split_exponent_def decimal_value_digits v negate_def)
qed

lemma lex_number_int:
  assumes "\<bar>n\<bar> < 2 ^ 53"
  shows "lex_number (num_to_string (Fin (of_int n)) @ 0x2C # rest) = Some (Fin (of_int n), 0x2C # rest)"
proof (cases "n < 0")
  case False
  then have n: "of_nat (nat \<bar>n\<bar>) = (of_int n :: rat)" by simp
  have s: "num_to_string (Fin (of_int n)) = digits_of (nat \<bar>n\<bar>)"
    using num_to_string_int [OF assms] False by simp
  have "int (nat \<bar>n\<bar>) < 2 ^ 53" using assms by simp
  from lex_number_digits [OF this, of rest] show ?thesis
    unfolding s n .
next
  case True
  then have n: "- of_nat (nat \<bar>n\<bar>) = (of_int n :: rat)" by simp
  have s: "num_to_string (Fin (of_int n)) = 0x2D # digits_of (nat \<bar>n\<bar>)"
    using num_to_string_int [OF assms] True by simp
  have "int (nat \<bar>n\<bar>) < 2 ^ 53" using assms by simp
  from lex_number_negative [OF this, of rest] show ?thesis
    unfolding s n by simp
qed


subsection \<open>Powers and logarithms\<close>


lemma pow_powi: "pow b e = of_int b powi e"
  by (simp add: pow_def power_int_def power_one_over inverse_eq_divide)

lemma pow_pos: "0 < b \<Longrightarrow> 0 < pow b e"
  by (simp add: pow_powi zero_less_power_int)

lemma pow_add: "b \<noteq> 0 \<Longrightarrow> pow b (i + j) = pow b i * pow b j"
  by (simp add: pow_powi power_int_add)

lemma pow_diff: "b \<noteq> 0 \<Longrightarrow> pow b (i - j) = pow b i / pow b j"
  by (simp add: pow_powi power_int_diff)

lemma pow_nat: "pow b (int k) = of_int b ^ k"
  by (simp add: pow_def)

lemma pow_mono: "1 < b \<Longrightarrow> i \<le> j \<Longrightarrow> pow b i \<le> pow b j"
  by (simp add: pow_powi power_int_increasing)

lemma pow_strict_mono: "1 < b \<Longrightarrow> i < j \<Longrightarrow> pow b i < pow b j"
  by (simp add: pow_powi power_int_strict_increasing)

lemma width_step: "2 \<le> b \<Longrightarrow> 0 < n \<Longrightarrow> width b n = 1 + width b (n div b)"
  by (subst width.simps) simp

lemma width_zero: "n \<le> 0 \<Longrightarrow> width b n = 0"
  by (subst width.simps) simp

lemma width_bounds:
  assumes "2 \<le> b" "0 < n"
  shows "0 < width b n \<and> b ^ nat (width b n - 1) \<le> n \<and> n < b ^ nat (width b n)"
  using assms
proof (induction b n rule: width.induct)
  case (1 b n)
  have b: "0 < b" using 1(2) by simp
  have split: "n = b * (n div b) + n mod b" by simp
  have m: "0 \<le> n mod b" "n mod b < b" using b by simp_all
  have w: "width b n = 1 + width b (n div b)" using 1(2,3) by (rule width_step)
  show ?case
  proof (cases "0 < n div b")
    case False
    then have d: "n div b = 0"
      using 1(3) b by (simp add: pos_imp_zdiv_nonneg_iff order_less_le order_antisym_conv)
    then have "width b n = 1" using w by (simp add: width_zero)
    moreover have "n < b" using split d m by simp
    ultimately show ?thesis using 1(3) by simp
  next
    case True
    have "\<not> (n \<le> 0 \<or> b < 2)" using 1(2,3) by simp
    from 1(1) [OF this 1(2) True]
    have IH: "0 < width b (n div b)" "b ^ nat (width b (n div b) - 1) \<le> n div b"
      "n div b < b ^ nat (width b (n div b))" by auto
    define k where "k = nat (width b (n div b) - 1)"
    have k: "nat (width b (n div b)) = Suc k" "nat (width b n - 1) = Suc k" "nat (width b n) = Suc (Suc k)"
      using IH(1) w by (simp_all add: k_def)
    have "b * b ^ k \<le> b * (n div b)"
      using IH(2) b by (simp add: k_def)
    also have "\<dots> \<le> n" using split m(1) by linarith
    finally have lower: "b ^ Suc k \<le> n" by simp
    have "n div b + 1 \<le> b ^ Suc k" using IH(3) k(1) by simp
    then have "b * (n div b + 1) \<le> b * b ^ Suc k"
      using b by simp
    moreover have "n < b * (n div b + 1)"
    proof -
      have "b * (n div b + 1) = b * (n div b) + b" by (simp add: distrib_left)
      with split m(2) show ?thesis by linarith
    qed
    ultimately have upper: "n < b ^ Suc (Suc k)" by simp
    from lower upper w IH(1) k show ?thesis by simp
  qed
qed


lemma pow_less_cancel: "1 < b \<Longrightarrow> pow b i < pow b j \<Longrightarrow> i < j"
  using pow_mono [of b j i] by (cases "i < j") auto

lemma floor_log_bounds:
  assumes "2 \<le> b" "0 < q"
  shows "pow b (floor_log b q) \<le> q \<and> q < pow b (floor_log b q + 1)"
proof -
  obtain n d where nd: "quotient_of q = (n, d)" by (cases "quotient_of q")
  then have d: "0 < d" and q: "q = of_int n / of_int d"
    by (simp_all add: quotient_of_denom_pos quotient_of_div)
  from assms(2) q d have n: "0 < n"
    by (simp add: zero_less_divide_iff)
  define wn where "wn = width b n"
  define wd where "wd = width b d"
  from width_bounds [OF assms(1) n] have bn: "0 < wn" "b ^ nat (wn - 1) \<le> n" "n < b ^ nat wn"
    by (simp_all add: wn_def)
  from width_bounds [OF assms(1) d] have bd: "0 < wd" "b ^ nat (wd - 1) \<le> d" "d < b ^ nat wd"
    by (simp_all add: wd_def)
  have b0: "b \<noteq> 0" "0 < b" "1 < b" using assms(1) by simp_all
  have P: "pow b i = of_int (b ^ nat i)" if "0 \<le> i" for i
    using that by (simp add: pow_def)
  have pn: "pow b (wn - 1) \<le> of_int n" "of_int n < pow b wn"
  proof -
    have "(of_int (b ^ nat (wn - 1)) :: rat) \<le> of_int n" using bn(2) by (simp only: of_int_le_iff)
    then show "pow b (wn - 1) \<le> of_int n" using bn(1) by (simp only: P)
    have "(of_int n :: rat) < of_int (b ^ nat wn)" using bn(3) by (simp only: of_int_less_iff)
    then show "of_int n < pow b wn" using bn(1) by (simp only: P)
  qed
  have pd: "pow b (wd - 1) \<le> of_int d" "of_int d < pow b wd"
  proof -
    have "(of_int (b ^ nat (wd - 1)) :: rat) \<le> of_int d" using bd(2) by (simp only: of_int_le_iff)
    then show "pow b (wd - 1) \<le> of_int d" using bd(1) by (simp only: P)
    have "(of_int d :: rat) < of_int (b ^ nat wd)" using bd(3) by (simp only: of_int_less_iff)
    then show "of_int d < pow b wd" using bd(1) by (simp only: P)
  qed
  have dpos: "(0 :: rat) < of_int d" using d by simp
  have upper: "q < pow b (wn - wd + 1)"
  proof -
    have "q < pow b wn / of_int d"
      unfolding q using pn(2) dpos by (simp add: divide_strict_right_mono)
    also have "\<dots> \<le> pow b wn / pow b (wd - 1)"
      using pd(1) pow_pos [OF b0(2), of "wd - 1"] pow_pos [OF b0(2), of wn]
      by (simp add: frac_le)
    also have "\<dots> = pow b (wn - wd + 1)"
      using pow_diff [OF b0(1), of wn "wd - 1"] by (simp add: algebra_simps)
    finally show ?thesis .
  qed
  have lower: "pow b (wn - wd - 1) < q"
  proof -
    have "pow b (wn - wd - 1) = pow b (wn - 1) / pow b wd"
      using pow_diff [OF b0(1), of "wn - 1" wd] by (simp add: algebra_simps)
    also have "\<dots> < pow b (wn - 1) / of_int d"
      using pd(2) dpos pow_pos [OF b0(2), of "wn - 1"]
      by (simp add: divide_strict_left_mono)
    also have "\<dots> \<le> q"
      unfolding q using pn(1) dpos by (simp add: divide_right_mono)
    finally show ?thesis .
  qed
  have fl: "floor_log b q = (if pow b (wn - wd) \<le> q then wn - wd else wn - wd - 1)"
    by (simp add: floor_log_def nd wn_def wd_def Let_def)
  show ?thesis
  proof (cases "pow b (wn - wd) \<le> q")
    case True
    with upper fl show ?thesis by simp
  next
    case False
    with lower fl show ?thesis by simp
  qed
qed

lemma floor_log_unique:
  assumes "2 \<le> b" "0 < q" "pow b e \<le> q" "q < pow b (e + 1)"
  shows "floor_log b q = e"
proof -
  have b: "1 < b" using assms(1) by simp
  from floor_log_bounds [OF assms(1,2)]
  have f: "pow b (floor_log b q) \<le> q" "q < pow b (floor_log b q + 1)" by simp_all
  from f(1) assms(4) have "pow b (floor_log b q) < pow b (e + 1)" by simp
  then have "floor_log b q < e + 1" by (rule pow_less_cancel [OF b])
  moreover from assms(3) f(2) have "pow b e < pow b (floor_log b q + 1)" by simp
  then have "e < floor_log b q + 1" by (rule pow_less_cancel [OF b])
  ultimately show ?thesis by simp
qed


subsection \<open>Rounding to the nearest double\<close>


lemma round64_pos:
  assumes "0 < q"
  shows "round64 q =
     (if pow 2 1024 \<le> of_int (round_half_even (q / ulp q)) * ulp q then PosInf
      else Fin (of_int (round_half_even (q / ulp q)) * ulp q))"
  using assms by (simp add: round64_def Let_def ulp_def)

lemma ulp_pos: "0 < ulp a"
  by (simp add: ulp_def pow_pos)

lemma round_half_even_near:
  assumes "\<bar>r - of_int m\<bar> < 1 / 2"
  shows "round_half_even r = m"
proof (cases "of_int m \<le> r")
  case True
  with assms have "r < of_int m + 1" by linarith
  with True have f: "\<lfloor>r\<rfloor> = m" by linarith
  from assms True have "r - of_int m < 1 / 2" by linarith
  with f show ?thesis by (simp add: round_half_even_def Let_def)
next
  case False
  with assms have "of_int (m - 1) \<le> r" "r < of_int (m - 1) + 1" by simp_all
  then have f: "\<lfloor>r\<rfloor> = m - 1" by linarith
  from assms False have "1 / 2 < r - of_int (m - 1)" by simp
  with f show ?thesis by (simp add: round_half_even_def Let_def)
qed

lemma round64_near:
  assumes "0 < y" "ulp y = u" "\<bar>y / u - of_int m\<bar> < 1 / 2" "of_int m * u < pow 2 1024"
  shows "round64 y = Fin (of_int m * u)"
  using assms round_half_even_near [OF assms(3)]
  by (simp add: round64_pos)


lemma pow2_numeral: "pow 2 53 = 2 ^ 53" "pow 2 52 = 2 ^ 52"
  by (simp_all add: pow_def)

lemma scale_less:
  assumes "x < pow 2 (e + k)" "0 < (k::int)"
  shows "x / pow 2 (e - 52) < pow 2 (k + 52)"
proof -
  have "pow 2 (e + k) = pow 2 (k + 52) * pow 2 (e - 52)"
    using pow_add [of 2 "k + 52" "e - 52"] by (simp add: algebra_simps)
  with assms(1) pow_pos [of 2 "e - 52"] show ?thesis
    by (simp add: pos_divide_less_eq)
qed

lemma scale_ge:
  assumes "pow 2 e \<le> x"
  shows "pow 2 52 \<le> x / pow 2 (e - 52)"
proof -
  have "pow 2 e = pow 2 52 * pow 2 (e - 52)"
    using pow_add [of 2 52 "e - 52"] by simp
  with assms pow_pos [of 2 "e - 52"] show ?thesis
    by (simp add: pos_le_divide_eq)
qed

lemma double_form:
  assumes "0 < x" "round64 x = Fin x"
  shows "\<exists>m. x = of_int m * ulp x \<and> 0 < m \<and> m < 2 ^ 53 \<and> x < pow 2 1024
    \<and> (- 1022 \<le> floor_log 2 x \<longrightarrow> 2 ^ 52 \<le> m)
    \<and> (floor_log 2 x < - 1022 \<longrightarrow> m < 2 ^ 52)"
proof -
  define m where "m = round_half_even (x / ulp x)"
  define F where "F = floor_log 2 x"
  define u where "u = ulp x"
  from assms have xu: "x = of_int m * u" and big: "x < pow 2 1024"
    by (auto simp: round64_pos m_def u_def split: if_splits)
  have u: "0 < u" unfolding u_def by (rule ulp_pos)
  from xu u have "x / u = of_int m" by simp
  then have q: "x / ulp x = of_int m" by (simp add: u_def)
  from xu have x: "x = of_int m * ulp x" by (simp add: u_def)
  have m0: "0 < m"
  proof -
    have "(0 :: rat) < x / u" using assms(1) u by simp
    then have "(0 :: rat) < of_int m" using q by (simp add: u_def)
    then show ?thesis by simp
  qed
  from floor_log_bounds [of 2 x] assms(1)
  have fl: "pow 2 F \<le> x" "x < pow 2 (F + 1)" by (simp_all add: F_def)
  have m53: "m < 2 ^ 53"
  proof -
    define e where "e = max F (- 1022)"
    have "pow 2 (F + 1) \<le> pow 2 (e + 1)" by (rule pow_mono) (simp_all add: e_def)
    with fl(2) have "x < pow 2 (e + 1)" by simp
    from scale_less [OF this] have "x / pow 2 (e - 52) < pow 2 53" by simp
    then have "(of_int m :: rat) < 2 ^ 53"
      using q by (simp add: ulp_def e_def F_def pow2_numeral)
    then show ?thesis by (metis of_int_less_numeral_power_cancel_iff)
  qed
  have m52: "2 ^ 52 \<le> m" if "- 1022 \<le> floor_log 2 x"
  proof -
    from that have e: "max F (- 1022) = F" by (simp add: F_def)
    from scale_ge [OF fl(1)] have "(2 :: rat) ^ 52 \<le> of_int m"
      using q e by (simp add: ulp_def F_def pow2_numeral)
    then show ?thesis by (metis numeral_power_le_of_int_cancel_iff)
  qed
  have sub: "m < 2 ^ 52" if "floor_log 2 x < - 1022"
  proof -
    from that have e: "max F (- 1022) = - 1022" by (simp add: F_def)
    have "pow 2 (F + 1) \<le> pow 2 (- 1022 + 0)" using that by (intro pow_mono) (simp_all add: F_def)
    with fl(2) have "x < pow 2 (- 1023 + 1)" by simp
    from scale_less [OF this] have "x / pow 2 (- 1023 - 52) < pow 2 53" by simp
    moreover have "pow 2 (- 1022 - 52) = 2 * pow 2 (- 1023 - 52)"
      using pow_add [of 2 1 "- 1075"] by (simp add: pow_def)
    ultimately have "x / pow 2 (- 1022 - 52) < pow 2 53 / 2"
      using pow_pos [of 2 "- 1075"] by (simp add: field_simps)
    then have "(of_int m :: rat) < 2 ^ 52"
      using q e by (simp add: ulp_def F_def pow_def)
    then show ?thesis by (metis of_int_less_numeral_power_cancel_iff)
  qed
  from x m0 m53 big m52 sub show ?thesis by blast
qed


lemma ulp_eq:
  "floor_log 2 y = floor_log 2 x \<or> (floor_log 2 y \<le> - 1022 \<and> floor_log 2 x \<le> - 1022)
     \<Longrightarrow> ulp y = ulp x"
  by (auto simp: ulp_def max_def)

lemma floor_log_less:
  assumes "0 < y" "y < pow 2 e"
  shows "floor_log 2 y < e"
proof -
  from floor_log_bounds [of 2 y] assms(1) have "pow 2 (floor_log 2 y) \<le> y" by simp
  with assms(2) have "pow 2 (floor_log 2 y) < pow 2 e" by simp
  then show ?thesis by (rule pow_less_cancel [rotated]) simp
qed

lemma ulp_times: "of_int (2 ^ 53) * pow 2 (e - 52) = pow 2 (e + 1)"
  "of_int (2 ^ 52) * pow 2 (e - 52) = pow 2 e"
  using pow_add [of 2 53 "e - 52"] pow_add [of 2 52 "e - 52"]
  by (simp_all add: pow2_numeral add.commute)

lemma ulp_above:
  assumes "0 < x" "round64 x = Fin x" "x \<le> y" "y < x + ulp x / 2"
  shows "ulp y = ulp x"
proof -
  from double_form [OF assms(1,2)] obtain m where m: "x = of_int m * ulp x" "0 < m" "m < 2 ^ 53"
    "- 1022 \<le> floor_log 2 x \<Longrightarrow> 2 ^ 52 \<le> m" "floor_log 2 x < - 1022 \<Longrightarrow> m < 2 ^ 52"
    by blast
  define u where "u = ulp x"
  have u: "0 < u" unfolding u_def by (rule ulp_pos)
  have y0: "0 < y" using assms(1,3) by simp
  show ?thesis
  proof (cases "- 1022 \<le> floor_log 2 x")
    case True
    define F where "F = floor_log 2 x"
    have uF: "u = pow 2 (F - 52)" using True by (simp add: u_def ulp_def F_def)
    from floor_log_bounds [of 2 x] assms(1) have "pow 2 F \<le> x" by (simp add: F_def)
    with assms(3) have lower: "pow 2 F \<le> y" by simp
    from m(3) have "m + 1 \<le> 2 ^ 53" by simp
    then have "(of_int (m + 1) :: rat) \<le> of_int (2 ^ 53)" by (simp only: of_int_le_iff)
    then have "of_int (m + 1) * u \<le> of_int (2 ^ 53) * u"
      using u by (simp only: mult_le_cancel_right_pos)
    also have "\<dots> = pow 2 (F + 1)" by (simp only: uF ulp_times)
    finally have "of_int m * u + u \<le> pow 2 (F + 1)" by (simp add: algebra_simps)
    moreover have "y < of_int m * u + u / 2" using assms(4) m(1) by (simp add: u_def)
    ultimately have upper: "y < pow 2 (F + 1)" using u by linarith
    have "floor_log 2 y = F"
      using _ y0 lower upper by (rule floor_log_unique) simp
    then show ?thesis by (intro ulp_eq) (simp add: F_def)
  next
    case False
    then have uF: "u = pow 2 (- 1022 - 52)" by (simp add: u_def ulp_def)
    from False m(5) have "m + 1 \<le> 2 ^ 52" by simp
    then have "(of_int (m + 1) :: rat) \<le> of_int (2 ^ 52)" by (simp only: of_int_le_iff)
    then have "of_int (m + 1) * u \<le> of_int (2 ^ 52) * u"
      using u by (simp only: mult_le_cancel_right_pos)
    also have "\<dots> = pow 2 (- 1022)" by (simp only: uF ulp_times)
    finally have "of_int m * u + u \<le> pow 2 (- 1022)" by (simp add: algebra_simps)
    moreover have "y < of_int m * u + u / 2" using assms(4) m(1) by (simp add: u_def)
    ultimately have "y < pow 2 (- 1022)" using u by linarith
    from floor_log_less [OF y0 this] False show ?thesis
      by (intro ulp_eq) simp
  qed
qed

lemma ulp_below:
  assumes "0 < x" "round64 x = Fin x" "0 < y" "y \<le> x" "x - ulp x / 2 < y"
    and "floor_log 2 x \<le> - 1022 \<or> pow 2 (floor_log 2 x) + ulp x \<le> x"
  shows "ulp y = ulp x"
proof (cases "floor_log 2 x \<le> - 1022")
  case True
  from floor_log_bounds [of 2 x] assms(1) have "x < pow 2 (floor_log 2 x + 1)" by simp
  also have "\<dots> \<le> pow 2 (- 1021)" using True by (intro pow_mono) simp_all
  finally have "y < pow 2 (- 1021)" using assms(4) by simp
  from floor_log_less [OF assms(3) this] True show ?thesis
    by (intro ulp_eq) simp
next
  case False
  define F where "F = floor_log 2 x"
  have u: "0 < ulp x" by (rule ulp_pos)
  from False assms(6) have "pow 2 F + ulp x \<le> x" by (simp add: F_def)
  with assms(5) u have lower: "pow 2 F \<le> y" by linarith
  from floor_log_bounds [of 2 x] assms(1) have "x < pow 2 (F + 1)" by (simp add: F_def)
  with assms(4) have upper: "y < pow 2 (F + 1)" by simp
  have "floor_log 2 y = F"
    using _ assms(3) lower upper by (rule floor_log_unique) simp
  then show ?thesis by (intro ulp_eq) (simp add: F_def)
qed


lemma pow10_16: "pow 10 (n - 17) * 10 ^ 16 = pow 10 (n - 1)"
  using pow_add [of 10 "n - 17" 16] by (simp add: pow_def [of 10 16])

lemma seventeen_digits:
  assumes "0 < x" "round64 x = Fin x"
  shows "round64 (of_int \<lfloor>x / pow 10 (floor_log 10 x + 1 - 17)\<rfloor> * pow 10 (floor_log 10 x + 1 - 17)) = Fin x
       \<or> round64 (of_int (\<lfloor>x / pow 10 (floor_log 10 x + 1 - 17)\<rfloor> + 1) * pow 10 (floor_log 10 x + 1 - 17)) = Fin x"
proof -
  define n where "n = floor_log 10 x + 1"
  define scale where "scale = pow 10 (n - 17)"
  define lo where "lo = \<lfloor>x / scale\<rfloor>"
  define u where "u = ulp x"
  define F where "F = floor_log 2 x"
  from double_form [OF assms] obtain m where m: "x = of_int m * u" "0 < m" "m < 2 ^ 53"
    "x < pow 2 1024" "- 1022 \<le> F \<Longrightarrow> 2 ^ 52 \<le> m"
    unfolding u_def F_def by blast
  have u: "0 < u" unfolding u_def by (rule ulp_pos)
  have sc: "0 < scale" unfolding scale_def by (simp add: pow_pos)
  have "pow 10 (n - 1) \<le> x"
    using floor_log_bounds [of 10 x] assms(1) by (simp add: n_def)
  moreover have "scale * 10 ^ 16 = pow 10 (n - 1)" unfolding scale_def by (rule pow10_16)
  ultimately have s16: "scale * 10 ^ 16 \<le> x" by (simp only:)
  have lo: "of_int lo * scale \<le> x" "x < of_int (lo + 1) * scale"
  proof -
    have "of_int lo \<le> x / scale" by (simp add: lo_def)
    then show "of_int lo * scale \<le> x" using sc by (simp add: pos_le_divide_eq)
    have "x / scale < of_int (lo + 1)" unfolding lo_def by linarith
    then show "x < of_int (lo + 1) * scale" using sc by (simp add: pos_divide_less_eq)
  qed
  have lo0: "0 < of_int lo * scale"
  proof -
    have "(1 :: rat) \<le> 10 ^ 16" by simp
    also have "\<dots> \<le> x / scale" using s16 sc by (simp add: pos_le_divide_eq mult.commute)
    finally have "1 \<le> lo" by (simp add: lo_def le_floor_iff)
    then show ?thesis using sc by simp
  qed
  have step: "of_int (lo + 1) * scale = of_int lo * scale + scale"
    by (simp add: algebra_simps)
  have gap: "scale * 10 ^ 16 \<le> of_int m * u" using s16 m(1) by simp
  have m_small: "of_int m * u < 10 ^ 16 * u"
  proof -
    have "m < 10 ^ 16" using m(3) by simp
    then have "(of_int m :: rat) < of_int (10 ^ 16)" by (simp only: of_int_less_iff)
    then show ?thesis using u by simp
  qed
  with gap have scale_u: "scale < u" by simp
  show ?thesis
  proof (cases "of_int (lo + 1) * scale - x < u / 2")
    case True
    define y where "y = of_int (lo + 1) * scale"
    have y: "x \<le> y" "y < x + ulp x / 2" using lo(2) True by (simp_all add: y_def u_def)
    from ulp_above [OF assms y] have uy: "ulp y = u" by (simp add: u_def)
    have "y / u - of_int m = (y - x) / u" using u m(1) by (simp add: field_simps)
    moreover have d: "0 \<le> (y - x) / u" "(y - x) / u < 1 / 2"
      using y(1) True u by (simp_all add: y_def pos_divide_less_eq)
    ultimately have "\<bar>y / u - of_int m\<bar> = (y - x) / u" by (simp only: abs_of_nonneg)
    with d(2) have near: "\<bar>y / u - of_int m\<bar> < 1 / 2" by (simp only:)
    have "0 < y" using assms(1) y(1) by simp
    from round64_near [OF this uy near] m(1,4) have "round64 y = Fin x" by simp
    then show ?thesis by (simp add: y_def lo_def scale_def n_def)
  next
    case False
    define y where "y = of_int lo * scale"
    from False step scale_u have close: "x - u / 2 < y" by (simp add: y_def)
    have edge: "F \<le> - 1022 \<or> pow 2 F + u \<le> x"
    proof (rule ccontr)
      assume "\<not> ?thesis"
      then have F: "- 1022 < F" and x: "x < pow 2 F + u" by simp_all
      have uF: "u = pow 2 (F - 52)" using F by (simp add: u_def ulp_def F_def)
      have "pow 2 F = of_int (2 ^ 52) * u" by (simp only: uF ulp_times)
      with x m(1) have "of_int m * u < of_int (2 ^ 52 + 1) * u" by (simp add: algebra_simps)
      then have "(of_int m :: rat) < of_int (2 ^ 52 + 1)" using u by (simp only: mult_less_cancel_right_pos)
      then have "m < 2 ^ 52 + 1" by (simp only: of_int_less_iff)
      with m(5) F have "m = 2 ^ 52" by simp
      with gap have "scale * 10 ^ 16 \<le> 2 ^ 52 * u" by simp
      moreover have "(2 :: rat) ^ 52 * u < 10 ^ 16 * (u / 2)" using u by simp
      ultimately have "scale < u / 2" by simp
      with False step lo(1) show False by simp
    qed
    have y: "0 < y" "y \<le> x" "x - ulp x / 2 < y"
      using lo0 lo(1) close by (simp_all add: y_def u_def)
    from ulp_below [OF assms y] edge have uy: "ulp y = u" by (simp add: u_def F_def)
    have "y / u - of_int m = - ((x - y) / u)" using u m(1) by (simp add: field_simps)
    moreover have d: "0 \<le> (x - y) / u" "(x - y) / u < 1 / 2"
      using y(2) close u by (simp_all add: pos_divide_less_eq)
    ultimately have "\<bar>y / u - of_int m\<bar> = (x - y) / u"
      by (simp only: abs_minus_cancel abs_of_nonneg)
    with d(2) have near: "\<bar>y / u - of_int m\<bar> < 1 / 2" by (simp only:)
    from round64_near [OF y(1) uy near] m(1,4) have "round64 y = Fin x" by simp
    then show ?thesis by (simp add: y_def lo_def scale_def n_def)
  qed
qed


subsection \<open>The shortest digits of a double\<close>

lemma map_filter_hd:
  "List.map_filter f xs = r # rs \<Longrightarrow> \<exists>x \<in> set xs. f x = Some r"
  by (induction xs) (auto simp: List.map_filter_simps split: option.splits)

lemma map_filter_nonempty:
  "x \<in> set xs \<Longrightarrow> f x \<noteq> None \<Longrightarrow> List.map_filter f xs \<noteq> []"
  by (induction xs) (auto simp: List.map_filter_simps split: option.splits)

lemma pow_succ: "pow 10 (n + 1) = 10 * pow 10 n"
  using pow_add [of 10 n 1] by (simp add: pow_def [of 10 1])

lemma pow10_split: "1 \<le> k \<Longrightarrow> pow 10 (n - int k) * 10 ^ k = pow 10 n"
  using pow_add [of 10 "n - int k" "int k"] by (simp add: pow_nat)

lemma candidate_sound:
  assumes c: "candidate x n0 k = Some (s, n)"
    and k: "1 \<le> k"
    and x: "pow 10 (n0 - 1) \<le> x" "x < pow 10 n0"
  shows "round64 (of_int s * pow 10 (n - int k)) = Fin x \<and> 10 ^ (k - 1) \<le> s \<and> s < 10 ^ k"
proof -
  define scale where "scale = pow 10 (n0 - int k)"
  define lo where "lo = \<lfloor>x / scale\<rfloor>"
  have sc: "0 < scale" by (simp add: scale_def pow_pos)
  have up: "scale * 10 ^ k = pow 10 n0" unfolding scale_def using k by (rule pow10_split)
  have "pow 10 (n0 - 1 - int (k - 1)) * 10 ^ (k - 1) = pow 10 (n0 - 1)"
    using pow_add [of 10 "n0 - 1 - int (k - 1)" "int (k - 1)"] by (simp add: pow_nat)
  moreover have "n0 - 1 - int (k - 1) = n0 - int k" using k by simp
  ultimately have down: "scale * 10 ^ (k - 1) = pow 10 (n0 - 1)" by (simp add: scale_def)
  have "of_int (10 ^ (k - 1)) \<le> x / scale"
    using x(1) sc down by (simp add: pos_le_divide_eq mult.commute)
  then have lo1: "10 ^ (k - 1) \<le> lo" unfolding lo_def by (simp only: le_floor_iff)
  have "x / scale < of_int (10 ^ k)"
    using x(2) sc up by (simp add: pos_divide_less_eq mult.commute)
  then have lo2: "lo < 10 ^ k" unfolding lo_def by (simp only: floor_less_iff)
  have carry: "of_int (10 ^ (k - 1)) * pow 10 (n0 + 1 - int k) = of_int (10 ^ k) * scale"
  proof -
    have "pow 10 (n0 + 1 - int k) = 10 * scale"
      using pow_succ [of "n0 - int k"] by (simp add: scale_def algebra_simps)
    moreover have "(10 :: rat) ^ k = 10 * 10 ^ (k - 1)"
      using k by (cases k) simp_all
    ultimately show ?thesis by simp
  qed
  define ok_lo where "ok_lo \<longleftrightarrow> round64 (of_int lo * scale) = Fin x"
  define ok_hi where "ok_hi \<longleftrightarrow> round64 (of_int (lo + 1) * scale) = Fin x"
  define pick where "pick \<longleftrightarrow> ok_hi \<and> (\<not> ok_lo \<or> of_int (lo + 1) * scale - x < x - of_int lo * scale
     \<or> (of_int (lo + 1) * scale - x = x - of_int lo * scale \<and> even (lo + 1)))"
  have c': "(if pick then (if lo + 1 = 10 ^ k then Some (10 ^ (k - 1), n0 + 1) else Some (lo + 1, n0))
            else if ok_lo then Some (lo, n0) else None) = Some (s, n)"
    using c unfolding candidate_def Let_def scale_def [symmetric] lo_def [symmetric]
      ok_lo_def [symmetric] ok_hi_def [symmetric] pick_def [symmetric] .
  have ph: "pick \<Longrightarrow> ok_hi" by (simp add: pick_def)
  consider
      (roll) "round64 (of_int (lo + 1) * scale) = Fin x" "lo + 1 = 10 ^ k" "s = 10 ^ (k - 1)" "n = n0 + 1"
    | (hi) "round64 (of_int (lo + 1) * scale) = Fin x" "lo + 1 \<noteq> 10 ^ k" "s = lo + 1" "n = n0"
    | (lo) "round64 (of_int lo * scale) = Fin x" "s = lo" "n = n0"
  proof (cases pick)
    case True
    with ph have h: "round64 (of_int (lo + 1) * scale) = Fin x" by (simp add: ok_hi_def)
    show ?thesis
    proof (cases "lo + 1 = 10 ^ k")
      case e: True
      with c' True have "s = 10 ^ (k - 1)" "n = n0 + 1" by simp_all
      with h e show ?thesis by (rule roll)
    next
      case e: False
      with c' True have "s = lo + 1" "n = n0" by simp_all
      with h e show ?thesis by (rule hi)
    qed
  next
    case False
    with c' have "ok_lo" "s = lo" "n = n0" by (simp_all split: if_splits)
    then show ?thesis using lo by (simp add: ok_lo_def)
  qed
  then show ?thesis
  proof cases
    case roll
    have "of_int s * pow 10 (n - int k) = of_int (lo + 1) * scale"
      unfolding roll(2,3,4) by (rule carry)
    with roll(1,3) k show ?thesis by simp
  next
    case hi
    have "pow 10 (n - int k) = scale" by (simp add: scale_def hi(4))
    with hi lo1 lo2 show ?thesis by simp
  next
    case lo
    have "pow 10 (n - int k) = scale" by (simp add: scale_def lo(3))
    with lo lo1 lo2 show ?thesis by simp
  qed
qed

lemma candidate_17:
  assumes "0 < x" "round64 x = Fin x"
  shows "candidate x (floor_log 10 x + 1) 17 \<noteq> None"
  using seventeen_digits [OF assms]
  unfolding candidate_def Let_def
  by (auto split: if_splits)

lemma shortest_sound:
  assumes "0 < x" "round64 x = Fin x" "shortest x (floor_log 10 x + 1) = (s, n)"
  shows "\<exists>k. 1 \<le> k \<and> round64 (of_int s * pow 10 (n - int k)) = Fin x
           \<and> 10 ^ (k - 1) \<le> s \<and> s < 10 ^ k"
proof -
  have x: "pow 10 (floor_log 10 x + 1 - 1) \<le> x" "x < pow 10 (floor_log 10 x + 1)"
    using floor_log_bounds [of 10 x] assms(1) by simp_all
  have "(17 :: nat) \<in> set [1 ..< 18]" by simp
  with candidate_17 [OF assms(1,2)] map_filter_nonempty [of 17 "[1 ..< 18]" "candidate x (floor_log 10 x + 1)"]
  obtain r rs where r: "List.map_filter (candidate x (floor_log 10 x + 1)) [1 ..< 18] = r # rs"
    by (cases "List.map_filter (candidate x (floor_log 10 x + 1)) [1 ..< 18]") auto
  with assms(3) have "r = (s, n)" by (simp add: shortest_def)
  with map_filter_hd [OF r] obtain k where k: "k \<in> set [1 ..< 18]"
    "candidate x (floor_log 10 x + 1) k = Some (s, n)" by blast
  then have "1 \<le> k" by simp
  from candidate_sound [OF k(2) this x] this show ?thesis by blast
qed


subsection \<open>Lexing a printed number\<close>

lemma length_digits_of:
  "1 \<le> k \<Longrightarrow> 10 ^ (k - 1) \<le> m \<Longrightarrow> m < 10 ^ k \<Longrightarrow> length (digits_of m) = k"
proof (induction k arbitrary: m)
  case 0
  then show ?case by simp
next
  case (Suc k)
  show ?case
  proof (cases "k = 0")
    case True
    with Suc.prems show ?thesis by (subst digits_of.simps) simp
  next
    case False
    then obtain j where j: "k = Suc j" by (cases k) auto
    from Suc.prems j have m: "10 * 10 ^ j \<le> m" "m < 10 * 10 ^ k" by simp_all
    then have "10 ^ j \<le> m div 10" "m div 10 < 10 ^ k" by simp_all
    with Suc.IH [of "m div 10"] j have "length (digits_of (m div 10)) = k" by simp
    moreover have "(1 :: nat) \<le> 10 ^ j" by simp
    with m(1) have "\<not> m < 10" by linarith
    ultimately show ?thesis by (subst digits_of.simps) simp
  qed
qed

lemma digits_val_append:
  "digits_val (a @ b) = digits_val a * 10 ^ length b + digits_val b"
proof (induction b rule: rev_induct)
  case Nil
  then show ?case by (simp add: digits_val_def)
next
  case (snoc c b)
  have "digits_val (a @ b @ [c]) = 10 * digits_val (a @ b) + digit_val c"
    using digits_val_snoc [of "a @ b" c] by simp
  with snoc show ?case by (simp add: digits_val_snoc algebra_simps)
qed

lemma digits_val_zeros: "digits_val (replicate j 0x30) = 0"
  by (induction j) (simp_all add: digits_val_def digit_val_def)

lemma zeros_all_digits: "list_all is_digit (replicate j 0x30)"
  by (simp add: list_all_iff is_digit_def)

lemma takeWhile_stop:
  "list_all P xs \<Longrightarrow> ys = [] \<or> \<not> P (hd ys) \<Longrightarrow> takeWhile P (xs @ ys) = xs"
  by (induction xs) (auto simp: neq_Nil_conv takeWhile_eq_Nil_iff)

lemma dropWhile_stop:
  "list_all P xs \<Longrightarrow> ys = [] \<or> \<not> P (hd ys) \<Longrightarrow> dropWhile P (xs @ ys) = ys"
  by (induction xs) (auto simp: neq_Nil_conv dropWhile_eq_self_iff)

lemma split_exponent_text:
  "split_exponent (exponent_text ex @ 0x2C # rest) = Some (exponent_value ex, 0x2C # rest)"
proof -
  have c: "0x2C # rest = [] \<or> \<not> is_digit (hd (0x2C # rest))" by (simp add: is_digit_def)
  have t: "takeWhile is_digit (digits_of m @ 0x2C # rest) = digits_of m"
    and d: "dropWhile is_digit (digits_of m @ 0x2C # rest) = 0x2C # rest" for m
    using digits_of_all_digits c by (rule takeWhile_stop, rule dropWhile_stop)
  show ?thesis
    by (cases ex) (simp_all add: split_exponent_def t d digits_of_nonempty digits_val_digits_of)
qed

lemma exponent_text_start:
  "exponent_text ex @ 0x2C # rest = [] \<or> \<not> is_digit (hd (exponent_text ex @ 0x2C # rest))"
  "hd (exponent_text ex @ 0x2C # rest) \<noteq> 0x2E"
  by (cases ex; simp add: is_digit_def)+

lemma split_fraction_none:
  "split_fraction (exponent_text ex @ 0x2C # rest) = Some ([], exponent_text ex @ 0x2C # rest)"
  by (cases ex) (simp_all add: split_fraction_def)

lemma split_fraction_some:
  assumes "list_all is_digit fp" "fp \<noteq> []"
  shows "split_fraction (0x2E # fp @ exponent_text ex @ 0x2C # rest)
         = Some (fp, exponent_text ex @ 0x2C # rest)"
proof -
  have t: "takeWhile is_digit (fp @ exponent_text ex @ 0x2C # rest) = fp"
    and d: "dropWhile is_digit (fp @ exponent_text ex @ 0x2C # rest) = exponent_text ex @ 0x2C # rest"
    using assms(1) exponent_text_start(1) by (rule takeWhile_stop, rule dropWhile_stop)
  show ?thesis by (simp add: split_fraction_def t d assms(2))
qed

lemma split_fraction_text:
  assumes "list_all is_digit fp"
  shows "split_fraction (fraction_text fp @ exponent_text ex @ 0x2C # rest)
         = Some (fp, exponent_text ex @ 0x2C # rest)"
  using split_fraction_none [of ex rest] split_fraction_some [OF assms, of ex rest]
  by (simp add: fraction_text_def)

lemma fraction_text_start:
  "\<not> is_digit (hd (fraction_text fp @ exponent_text ex @ 0x2C # rest))"
  using exponent_text_start(1) [of ex rest]
  by (simp add: fraction_text_def is_digit_def)

lemma lex_number_parts:
  assumes ip: "list_all is_digit ip" "ip \<noteq> []" "\<not> (1 < length ip \<and> hd ip = 0x30)"
    and fp: "list_all is_digit fp"
  shows "lex_number (ip @ fraction_text fp @ exponent_text ex @ 0x2C # rest)
         = Some (round64 (decimal_value ip fp (exponent_value ex)), 0x2C # rest)"
    and "lex_number (0x2D # ip @ fraction_text fp @ exponent_text ex @ 0x2C # rest)
         = Some (negate (round64 (decimal_value ip fp (exponent_value ex))), 0x2C # rest)"
proof -
  define tail where "tail = fraction_text fp @ exponent_text ex @ 0x2C # rest"
  have stop: "tail = [] \<or> \<not> is_digit (hd tail)"
    unfolding tail_def using fraction_text_start by blast
  have t: "takeWhile is_digit (ip @ tail) = ip" and d: "dropWhile is_digit (ip @ tail) = tail"
    using ip(1) stop by (rule takeWhile_stop, rule dropWhile_stop)
  have f: "split_fraction tail = Some (fp, exponent_text ex @ 0x2C # rest)"
    unfolding tail_def using fp by (rule split_fraction_text)
  obtain c cs where c: "ip = c # cs" "is_digit c"
    using ip(1,2) by (cases ip) auto
  then have neg: "take 1 (ip @ tail) \<noteq> [0x2D]" by (auto simp: is_digit_def)
  have "lex_number (ip @ tail) = Some (round64 (decimal_value ip fp (exponent_value ex)), 0x2C # rest)"
    unfolding lex_number_def Let_def using ip(2,3)
    by (simp only: neg if_False t d f) (simp add: split_exponent_text)
  then show "lex_number (ip @ fraction_text fp @ exponent_text ex @ 0x2C # rest)
         = Some (round64 (decimal_value ip fp (exponent_value ex)), 0x2C # rest)"
    by (simp only: tail_def)
  have "lex_number (0x2D # ip @ tail) = Some (negate (round64 (decimal_value ip fp (exponent_value ex))), 0x2C # rest)"
    unfolding lex_number_def Let_def using ip(2,3)
    by (simp add: t d f split_exponent_text)
  then show "lex_number (0x2D # ip @ fraction_text fp @ exponent_text ex @ 0x2C # rest)
         = Some (negate (round64 (decimal_value ip fp (exponent_value ex))), 0x2C # rest)"
    by (simp only: tail_def)
qed


lemma digits_val_Nil: "digits_val [] = 0"
  by (simp add: digits_val_def)

lemma decimal_value_unfold:
  "decimal_value ip fp e = of_nat (digits_val ip * 10 ^ length fp + digits_val fp) * pow 10 (e - int (length fp))"
  by (simp add: decimal_value_def digits_val_append)

lemma format_digits_parts:
  assumes ds: "list_all is_digit ds" "ds \<noteq> []" "hd ds \<noteq> 0x30"
  shows "\<exists>ip fp ex. format_digits ds n = ip @ fraction_text fp @ exponent_text ex
           \<and> list_all is_digit ip \<and> ip \<noteq> [] \<and> \<not> (1 < length ip \<and> hd ip = 0x30)
           \<and> list_all is_digit fp
           \<and> decimal_value ip fp (exponent_value ex) = of_nat (digits_val ds) * pow 10 (n - int (length ds))"
proof -
  define k where "k = int (length ds)"
  have k: "0 < k" using ds(2) by (simp add: k_def)
  have split: "digits_val ds = digits_val (take j ds) * 10 ^ length (drop j ds) + digits_val (drop j ds)" for j
    using digits_val_append [of "take j ds" "drop j ds"] by simp
  have td: "list_all is_digit (take j ds)" "list_all is_digit (drop j ds)" for j
    using ds(1) by (auto simp: list_all_iff dest: in_set_takeD in_set_dropD)
  consider (whole) "k \<le> n" "n \<le> 21"
    | (point) "\<not> k \<le> n" "0 < n" "n \<le> 21"
    | (small) "- 6 < n" "n \<le> 0"
    | (exp1) "\<not> (k \<le> n \<and> n \<le> 21)" "\<not> (0 < n \<and> n \<le> 21)" "\<not> (- 6 < n \<and> n \<le> 0)" "k = 1"
    | (expk) "\<not> (k \<le> n \<and> n \<le> 21)" "\<not> (0 < n \<and> n \<le> 21)" "\<not> (- 6 < n \<and> n \<le> 0)" "k \<noteq> 1"
    by linarith
  then show ?thesis
  proof cases
    case whole
    define j where "j = nat (n - k)"
    have f: "format_digits ds n = (ds @ replicate j 0x30) @ fraction_text [] @ exponent_text NoExponent"
      using whole by (simp add: format_digits_def k_def [symmetric] j_def fraction_text_def)
    have n: "n - int (length ds) = int j" using whole by (simp add: j_def k_def)
    have v: "decimal_value (ds @ replicate j 0x30) [] (exponent_value NoExponent)
        = of_nat (digits_val ds) * pow 10 (n - int (length ds))"
      unfolding n by (simp add: decimal_value_unfold digits_val_append digits_val_zeros digits_val_Nil pow_nat pow_def [of 10 0])
    have "list_all is_digit (ds @ replicate j 0x30)" "ds @ replicate j 0x30 \<noteq> []"
      "\<not> (1 < length (ds @ replicate j 0x30) \<and> hd (ds @ replicate j 0x30) = 0x30)"
      using ds zeros_all_digits [of j] by simp_all
    with f v show ?thesis by (intro exI [of _ "ds @ replicate j 0x30"] exI [of _ "[]"] exI [of _ NoExponent]) simp
  next
    case point
    define j where "j = nat n"
    have j: "0 < j" "j < length ds" using point by (simp_all add: j_def k_def)
    have fp: "drop j ds \<noteq> []" using j by simp
    have f: "format_digits ds n = take j ds @ fraction_text (drop j ds) @ exponent_text NoExponent"
      using point fp by (simp add: format_digits_def k_def [symmetric] j_def [symmetric] fraction_text_def)
    have n: "n - int (length ds) = 0 - int (length (drop j ds))" using point j by (simp add: j_def)
    have v: "decimal_value (take j ds) (drop j ds) (exponent_value NoExponent)
        = of_nat (digits_val ds) * pow 10 (n - int (length ds))"
      unfolding n decimal_value_unfold split [of j, symmetric] by simp
    have h: "take j ds \<noteq> []" "hd (take j ds) \<noteq> 0x30"
      using j ds(2,3) by (cases ds; cases j; simp)+
    with f v td show ?thesis
      by (intro exI [of _ "take j ds"] exI [of _ "drop j ds"] exI [of _ NoExponent]) simp
  next
    case small
    define j where "j = nat (- n)"
    have f: "format_digits ds n = [0x30] @ fraction_text (replicate j 0x30 @ ds) @ exponent_text NoExponent"
      using small k ds(2)
      by (simp add: format_digits_def k_def [symmetric] j_def [symmetric] fraction_text_def js_unfold)
    have n: "n - int (length ds) = 0 - int (length (replicate j 0x30 @ ds))"
      using small by (simp add: j_def)
    have z: "digits_val [0x30] = 0" using digits_val_zeros [of 1] by simp
    have v: "decimal_value [0x30] (replicate j 0x30 @ ds) (exponent_value NoExponent)
        = of_nat (digits_val ds) * pow 10 (n - int (length ds))"
      unfolding n decimal_value_unfold z by (simp add: digits_val_append digits_val_zeros)
    have "list_all is_digit (replicate j 0x30 @ ds)" using ds(1) zeros_all_digits [of j] by simp
    moreover have "list_all is_digit [0x30]" by (simp add: is_digit_def)
    ultimately show ?thesis using f v
      by (intro exI [of _ "[0x30]"] exI [of _ "replicate j 0x30 @ ds"] exI [of _ NoExponent]) simp
  next
    case exp1
    define ex where "ex = (if n - 1 < 0 then ExponentMinus (nat \<bar>n - 1\<bar>) else ExponentPlus (nat \<bar>n - 1\<bar>))"
    have e: "exponent_value ex = n - 1" by (simp add: ex_def)
    have t: "exponent_text ex = [0x65] @ (if n - 1 < 0 then 0x2D else 0x2B) # digits_of (nat \<bar>n - 1\<bar>)"
      by (simp add: ex_def)
    have c: "(k \<le> n \<and> n \<le> 21) = False" "(0 < n \<and> n \<le> 21) = False" "(- 6 < n \<and> n \<le> 0) = False"
      using exp1 by simp_all
    have f: "format_digits ds n = ds @ fraction_text [] @ exponent_text ex"
      unfolding t format_digits_def Let_def k_def [symmetric]
      by (simp only: c if_False) (simp add: fraction_text_def exp1(4))
    have n: "n - int (length ds) = n - 1 - int (length ([] :: jstring))"
      using exp1(4) by (simp add: k_def)
    have v: "decimal_value ds [] (exponent_value ex) = of_nat (digits_val ds) * pow 10 (n - int (length ds))"
      unfolding n e decimal_value_unfold by (simp add: digits_val_def)
    have "\<not> (1 < length ds \<and> hd ds = 0x30)" using ds(3) by simp
    with f v ds show ?thesis
      by (intro exI [of _ ds] exI [of _ "[]"] exI [of _ ex]) simp
  next
    case expk
    define ex where "ex = (if n - 1 < 0 then ExponentMinus (nat \<bar>n - 1\<bar>) else ExponentPlus (nat \<bar>n - 1\<bar>))"
    have e: "exponent_value ex = n - 1" by (simp add: ex_def)
    have t: "exponent_text ex = [0x65] @ (if n - 1 < 0 then 0x2D else 0x2B) # digits_of (nat \<bar>n - 1\<bar>)"
      by (simp add: ex_def)
    have j: "1 < length ds" using expk(4) k unfolding k_def by linarith
    then have fp: "drop 1 ds \<noteq> []" by simp
    have c: "(k \<le> n \<and> n \<le> 21) = False" "(0 < n \<and> n \<le> 21) = False" "(- 6 < n \<and> n \<le> 0) = False"
      "(k = 1) = False"
      using expk by simp_all
    have f: "format_digits ds n = take 1 ds @ fraction_text (drop 1 ds) @ exponent_text ex"
      unfolding t format_digits_def Let_def k_def [symmetric]
      using j by (simp only: c if_False) (simp add: fraction_text_def)
    have n: "n - int (length ds) = n - 1 - int (length (drop 1 ds))"
      using j by simp
    have v: "decimal_value (take 1 ds) (drop 1 ds) (exponent_value ex)
        = of_nat (digits_val ds) * pow 10 (n - int (length ds))"
      unfolding n e decimal_value_unfold split [of 1, symmetric] by simp
    have h: "take 1 ds \<noteq> []" "hd (take 1 ds) \<noteq> 0x30" "length (take 1 ds) = 1"
      using ds(2,3) by (cases ds; simp)+
    with f v td show ?thesis
      by (intro exI [of _ "take 1 ds"] exI [of _ "drop 1 ds"] exI [of _ ex]) simp
  qed
qed


subsection \<open>Round trip of a number\<close>

lemma negate_negate: "negate (negate m) = m"
  by (cases m) (simp_all add: negate_def)

lemma round64_minus: "round64 (- q) = negate (round64 q)"
proof -
  consider "q = 0" | "0 < q" | "q < 0" by linarith
  then show ?thesis
  proof cases
    case 1
    then show ?thesis by (simp add: round64_def negate_def)
  next
    case 2
    then have "- q < 0" "- q \<noteq> 0" "\<not> q < 0" "q \<noteq> 0" by simp_all
    then show ?thesis unfolding round64_def Let_def by (simp only: if_True if_False abs_minus_cancel)
  next
    case 3
    then have "\<not> - q < 0" "- q \<noteq> 0" "q < 0" "q \<noteq> 0" by simp_all
    then show ?thesis unfolding round64_def Let_def
      by (simp only: if_True if_False abs_minus_cancel negate_negate)
  qed
qed

lemma num_to_string_minus:
  assumes "0 < a"
  shows "num_to_string (Fin (- a)) = 0x2D # num_to_string (Fin a)"
proof -
  from assms have "- a < 0" "- a \<noteq> 0" "\<not> a < 0" "a \<noteq> 0" by simp_all
  then show ?thesis unfolding num_to_string_def jsnum.case
    by (simp only: if_True if_False abs_minus_cancel append_Cons append_Nil)
qed

lemma num_to_string_parts:
  assumes "0 < a" "round64 a = Fin a"
  shows "\<exists>ip fp ex. num_to_string (Fin a) = ip @ fraction_text fp @ exponent_text ex
           \<and> list_all is_digit ip \<and> ip \<noteq> [] \<and> \<not> (1 < length ip \<and> hd ip = 0x30)
           \<and> list_all is_digit fp
           \<and> round64 (decimal_value ip fp (exponent_value ex)) = Fin a"
proof (cases "of_int \<lfloor>a\<rfloor> = a \<and> a < 2 ^ 53")
  case True
  define m where "m = nat \<lfloor>a\<rfloor>"
  from assms(1) have a: "\<not> a < 0" "a \<noteq> 0" "\<bar>a\<bar> = a" by simp_all
  have s: "num_to_string (Fin a) = digits_of m"
    unfolding num_to_string_def jsnum.case Let_def a(3) m_def
    using True by (simp only: a if_True if_False append_Nil simp_thms)
  have "0 \<le> \<lfloor>a\<rfloor>" using assms(1) by simp
  then have "(of_nat m :: rat) = of_int \<lfloor>a\<rfloor>" by (simp add: m_def)
  with True have "decimal_value (digits_of m) [] (exponent_value NoExponent) = a"
    by (simp add: decimal_value_digits)
  with assms(2) s digits_of_all_digits [of m] digits_of_nonempty [of m] no_leading_zero [of m]
  show ?thesis
    by (intro exI [of _ "digits_of m"] exI [of _ "[]"] exI [of _ NoExponent])
      (simp add: fraction_text_def)
next
  case False
  obtain s n where sn: "shortest a (floor_log 10 a + 1) = (s, n)"
    by (cases "shortest a (floor_log 10 a + 1)")
  from assms(1) have a: "\<not> a < 0" "a \<noteq> 0" "\<bar>a\<bar> = a" by simp_all
  have str: "num_to_string (Fin a) = format_digits (digits_of (nat s)) n"
    unfolding num_to_string_def jsnum.case Let_def a(3) sn
    using False by (simp only: a if_True if_False append_Nil simp_thms prod.case)
  from shortest_sound [OF assms sn] obtain k where k: "1 \<le> k"
    "round64 (of_int s * pow 10 (n - int k)) = Fin a" "10 ^ (k - 1) \<le> s" "s < 10 ^ k"
    by blast
  have "(0 :: int) < 10 ^ (k - 1)" by simp
  with k(3) have s: "0 < s" by linarith
  define m where "m = nat s"
  have m: "0 < m" "int m = s" using s by (simp_all add: m_def)
  have "int (10 ^ (k - 1)) \<le> int m" "int m < int (10 ^ k)" using k(3,4) m(2) by simp_all
  then have "10 ^ (k - 1) \<le> m" "m < 10 ^ k" by (simp_all only: of_nat_le_iff of_nat_less_iff)
  with k(1) have len: "length (digits_of m) = k" by (rule length_digits_of)
  have ds: "list_all is_digit (digits_of m)" "digits_of m \<noteq> []" "hd (digits_of m) \<noteq> 0x30"
    using digits_of_all_digits digits_of_nonempty hd_digits_of [OF m(1)] by simp_all
  from format_digits_parts [OF ds, of n] obtain ip fp ex where p:
    "format_digits (digits_of m) n = ip @ fraction_text fp @ exponent_text ex"
    "list_all is_digit ip" "ip \<noteq> []" "\<not> (1 < length ip \<and> hd ip = 0x30)" "list_all is_digit fp"
    "decimal_value ip fp (exponent_value ex) = of_nat (digits_val (digits_of m)) * pow 10 (n - int (length (digits_of m)))"
    by blast
  have "(of_nat m :: rat) = of_int s" using m(2) by (metis of_int_of_nat_eq)
  with p(6) k(2) have v: "round64 (decimal_value ip fp (exponent_value ex)) = Fin a"
    by (simp add: digits_val_digits_of len)
  have "num_to_string (Fin a) = ip @ fraction_text fp @ exponent_text ex"
    using str p(1) by (simp only: m_def)
  with p(2-5) v show ?thesis
    by (intro exI [of _ ip] exI [of _ fp] exI [of _ ex]) simp
qed

lemma lex_number_num_to_string:
  assumes "round64 q = Fin q"
  shows "lex_number (num_to_string (Fin q) @ 0x2C # rest) = Some (Fin q, 0x2C # rest)"
proof -
  consider "q = 0" | "0 < q" | "q < 0" by linarith
  then show ?thesis
  proof cases
    case 1
    with lex_number_int [of 0 rest] show ?thesis by simp
  next
    case 2
    from num_to_string_parts [OF 2 assms] obtain ip fp ex where p:
      "num_to_string (Fin q) = ip @ fraction_text fp @ exponent_text ex"
      "list_all is_digit ip" "ip \<noteq> []" "\<not> (1 < length ip \<and> hd ip = 0x30)" "list_all is_digit fp"
      "round64 (decimal_value ip fp (exponent_value ex)) = Fin q"
      by blast
    from lex_number_parts(1) [OF p(2-5), of ex rest] show ?thesis
      by (simp add: p(1,6))
  next
    case 3
    define a where "a = - q"
    have a: "0 < a" "q = - a" using 3 by (simp_all add: a_def)
    have "round64 a = negate (Fin q)" unfolding a_def round64_minus assms ..
    then have r: "round64 a = Fin a" by (simp add: negate_def a_def)
    from num_to_string_parts [OF a(1) r] obtain ip fp ex where p:
      "num_to_string (Fin a) = ip @ fraction_text fp @ exponent_text ex"
      "list_all is_digit ip" "ip \<noteq> []" "\<not> (1 < length ip \<and> hd ip = 0x30)" "list_all is_digit fp"
      "round64 (decimal_value ip fp (exponent_value ex)) = Fin a"
      by blast
    from lex_number_parts(2) [OF p(2-5), of ex rest] show ?thesis
      unfolding a(2) num_to_string_minus [OF a(1)]
      by (simp add: p(1,6) negate_def)
  qed
qed

lemma num_to_string_shape:
  assumes "round64 q = Fin q"
  shows "\<exists>c cs. num_to_string (Fin q) = c # cs \<and> (c = 0x2D \<or> is_digit c)"
    and "0x60 \<notin> set (num_to_string (Fin q))"
proof -
  have digits: "0x60 \<notin> set ds" if "list_all is_digit ds" for ds
    using that by (auto simp: list_all_iff is_digit_def)
  have ex: "0x60 \<notin> set (exponent_text ex)" for ex
    using digits [OF digits_of_all_digits] by (cases ex) simp_all
  have fr: "0x60 \<notin> set (fraction_text fp)" if "list_all is_digit fp" for fp
    using digits [OF that] by (simp add: fraction_text_def)
  have pos: "(\<exists>c cs. num_to_string (Fin a) = c # cs \<and> is_digit c) \<and> 0x60 \<notin> set (num_to_string (Fin a))"
    if "0 < a" "round64 a = Fin a" for a
  proof -
    from num_to_string_parts [OF that] obtain ip fp ex where p:
      "num_to_string (Fin a) = ip @ fraction_text fp @ exponent_text ex"
      "list_all is_digit ip" "ip \<noteq> []" "list_all is_digit fp"
      by blast
    from p(2,3) obtain c cs where "ip = c # cs" "is_digit c" by (cases ip) auto
    with p(1) digits [OF p(2)] fr [OF p(4)] ex show ?thesis by simp
  qed
  consider "q = 0" | "0 < q" | "q < 0" by linarith
  then have "(\<exists>c cs. num_to_string (Fin q) = c # cs \<and> (c = 0x2D \<or> is_digit c))
      \<and> 0x60 \<notin> set (num_to_string (Fin q))"
  proof cases
    case 1
    then show ?thesis by (simp add: num_to_string_def js_unfold is_digit_def)
  next
    case 2
    with pos [OF 2 assms] show ?thesis by blast
  next
    case 3
    define a where "a = - q"
    have a: "0 < a" "q = - a" using 3 by (simp_all add: a_def)
    have "round64 a = negate (Fin q)" unfolding a_def round64_minus assms ..
    then have r: "round64 a = Fin a" by (simp add: negate_def a_def)
    from pos [OF a(1) r] show ?thesis
      unfolding a(2) num_to_string_minus [OF a(1)] by simp
  qed
  then show "\<exists>c cs. num_to_string (Fin q) = c # cs \<and> (c = 0x2D \<or> is_digit c)"
    and "0x60 \<notin> set (num_to_string (Fin q))" by blast+
qed


text \<open>A number with a fraction: one half is a double, and it prints as \<^verbatim>\<open>0.5\<close>.\<close>

lemma half_is_double: "round64 (1 / 2) = Fin (1 / 2)"
proof -
  have f: "floor_log 2 (1 / 2) = - 1"
    by (rule floor_log_unique) (simp_all add: pow_def)
  have u: "ulp (1 / 2) = pow 2 (- 53)" by (simp add: ulp_def f)
  have "round64 (1 / 2) = Fin (of_int (2 ^ 52) * pow 2 (- 53))"
    by (rule round64_near [OF _ u]) (simp_all add: pow_def)
  then show ?thesis by (simp add: pow_def)
qed

lemma shortest_first:
  assumes "candidate x n 1 = Some r"
  shows "shortest x n = r"
proof -
  have "[1 ..< 18] = 1 # [Suc 1 ..< 18]" by (rule upt_conv_Cons) simp
  then show ?thesis
    unfolding shortest_def by (simp only: List.map_filter_simps assms option.case list.case)
qed

lemma three_fifths: "round64 (3 / 5) = Fin (of_int 5404319552844595 * pow 2 (- 53))"
proof -
  have f: "floor_log 2 (3 / 5) = - 1"
    by (rule floor_log_unique) (simp_all add: pow_def)
  have u: "ulp (3 / 5) = pow 2 (- 53)" by (simp add: ulp_def f)
  show ?thesis
    by (rule round64_near [OF _ u]) (simp_all add: pow_def abs_if)
qed

lemma floor_log_10_half: "floor_log 10 (1 / 2) = - 1"
  by (rule floor_log_unique) (simp_all add: pow_def)

lemma candidate_half: "candidate (1 / 2) 0 1 = Some (5, 0)"
proof -
  have s: "pow 10 (0 - int 1) = 1 / 10" by (simp add: pow_def)
  have lo: "\<lfloor>(1 / 2 :: rat) / (1 / 10)\<rfloor> = 5" by simp
  have a: "round64 (of_int 5 * (1 / 10)) = Fin (1 / 2)" using half_is_double by simp
  have b: "round64 (of_int (5 + 1) * (1 / 10)) \<noteq> Fin (1 / 2)"
    using three_fifths by (simp add: pow_def)
  show ?thesis
    unfolding candidate_def Let_def s lo by (simp only: a b) simp
qed

lemma num_to_string_half: "num_to_string (Fin (1 / 2)) = js ''0.5''"
proof -
  have "shortest (1 / 2) (floor_log 10 (1 / 2) + 1) = (5, 0)"
    using shortest_first [OF candidate_half] by (simp add: floor_log_10_half)
  moreover have "\<bar>1 / 2 :: rat\<bar> = 1 / 2" by simp
  moreover have "\<lfloor>1 / 2 :: rat\<rfloor> = 0" by (rule floor_unique) simp_all
  then have "\<not> (of_int \<lfloor>1 / 2 :: rat\<rfloor> = (1 / 2 :: rat) \<and> (1 / 2 :: rat) < 2 ^ 53)" by simp
  ultimately show ?thesis
    unfolding num_to_string_def jsnum.case Let_def
    by (simp add: format_digits_def digits_of.simps digit_char_def js_unfold)
qed


subsection \<open>Text without a code fence\<close>

lemma fence_unfold: "fence = [0x60, 0x60, 0x60]"
  by (simp add: fence_def js_unfold)

lemma sublist_prepend: "sublist xs ys \<Longrightarrow> sublist xs (p @ ys)"
  by (metis append_assoc sublist_def)

lemma fence_free_sublist:
  "\<not> fence_free n s \<Longrightarrow> n \<le> 2 \<Longrightarrow> sublist fence (replicate n 0x60 @ s)"
proof (induction s arbitrary: n)
  case Nil
  then show ?case by simp
next
  case (Cons c cs)
  show ?case
  proof (cases "c = 0x60")
    case False
    with Cons.prems have "\<not> fence_free 0 cs" by simp
    from Cons.IH [OF this] have "sublist fence cs" by simp
    then have "sublist fence ((replicate n 0x60 @ [c]) @ cs)"
      by (rule sublist_prepend)
    then show ?thesis by simp
  next
    case True
    show ?thesis
    proof (cases "n = 2")
      case n: True
      have "replicate n 0x60 @ c # cs = [] @ fence @ cs"
        using True n by (simp add: fence_unfold numeral_2_eq_2)
      then show ?thesis
        by (metis sublist_appendI)
    next
      case False
      with Cons.prems True have "\<not> fence_free (Suc n) cs" "Suc n \<le> 2" by auto
      from Cons.IH [OF this] have "sublist fence (replicate (Suc n) 0x60 @ cs)" .
      then show ?thesis
        using True by (simp add: replicate_app_Cons_same)
    qed
  qed
qed

lemma no_fence_free: "\<not> sublist fence s \<Longrightarrow> fence_free 0 s"
  using fence_free_sublist [of 0 s] by auto

lemma fence_free_take: "fence_free n s \<Longrightarrow> take 3 s \<noteq> fence"
  by (cases s; cases "tl s"; cases "tl (tl s)") (auto simp: fence_unfold split: if_splits)

lemma fence_free_tail: "fence_free n (c # cs) \<Longrightarrow> \<exists>k. fence_free k cs"
  by (auto split: if_splits)

lemma remove_all_fence_free:
  assumes "fence_free n s" and "take 3 pat = fence"
  shows "remove_all pat s = s"
  using assms(1)
proof (induction s arbitrary: n)
  case Nil
  then show ?case by (simp add: remove_all.simps)
next
  case (Cons c cs)
  from fence_free_tail [OF Cons.prems] Cons.IH have tl: "remove_all pat cs = cs" by blast
  have "take (length pat) (c # cs) \<noteq> pat"
  proof
    assume "take (length pat) (c # cs) = pat"
    then have "take 3 (take (length pat) (c # cs)) = fence" using assms(2) by simp
    moreover have "3 \<le> length pat"
      using assms(2) by (metis fence_unfold length_Cons length_take list.size(3) min.cobounded1 numeral_3_eq_3)
    ultimately have "take 3 (c # cs) = fence" by (simp add: min_def)
    with fence_free_take [OF Cons.prems] show False by simp
  qed
  then show ?case by (subst remove_all.simps) (simp add: tl)
qed

lemma clean_fence_free:
  assumes "fence_free 0 s" "s \<noteq> []" "\<not> is_space (hd s)" "\<not> is_space (last s)"
  shows "clean s = s"
proof -
  have "remove_all (js ''```json'') s = s"
    using assms(1) by (rule remove_all_fence_free) (simp add: fence_unfold js_unfold)
  moreover have "remove_all (js ''```'') s = s"
    using assms(1) by (rule remove_all_fence_free) (simp add: fence_unfold js_unfold)
  moreover have "dropWhile is_space s = s"
    using assms(2,3) by (cases s) simp_all
  moreover have "dropWhile is_space (rev s) = rev s"
    using assms(2,4) by (cases s rule: rev_cases) simp_all
  ultimately show ?thesis by (simp add: clean_def trim_def)
qed

lemma fence_free_prefix:
  "p \<noteq> [] \<Longrightarrow> 0x60 \<notin> set p \<Longrightarrow> fence_free n (p @ s) = fence_free 0 s"
proof (induction p arbitrary: n)
  case Nil
  then show ?case by simp
next
  case (Cons c p)
  then show ?case by (cases p) auto
qed


lemma hex_char_not_backtick: "d < 16 \<Longrightarrow> hex_char d \<noteq> 0x60"
  by (auto simp: word_eq_iff_unsigned [where ?'a = nat] unat_hex_char)

lemma hex4_no_backtick: "0x60 \<notin> set (hex4 c)"
proof -
  have "unat c < 65536" using unsigned_less [of c, where 'a = nat] by simp
  then have "unat c div 16 div 16 div 16 < 16" by simp
  then show ?thesis
    using hex_char_not_backtick [of "unat c div 16 div 16 div 16"]
      hex_char_not_backtick [of "unat c div 16 div 16 mod 16"]
      hex_char_not_backtick [of "unat c div 16 mod 16"]
      hex_char_not_backtick [of "unat c mod 16"]
    by (auto simp: hex4_def Let_def)
qed

lemma escape_unit_backtick: "escape_unit 0x60 = [0x60]"
  by (simp add: escape_unit_def is_high_def is_low_def)

lemma escape_unit_plain:
  assumes "c \<noteq> 0x60"
  shows "escape_unit c \<noteq> []" "0x60 \<notin> set (escape_unit c)"
  using assms hex4_no_backtick [of c] by (auto simp: escape_unit_def)

lemma fence_free_escape:
  "fence_free n (escape_unit c @ s) =
     (if c = 0x60 then n < 2 \<and> fence_free (Suc n) s else fence_free 0 s)"
  using fence_free_prefix [OF escape_unit_plain, of c n s]
  by (simp add: escape_unit_backtick)

lemma fence_free_quote_body:
  "fence_free n t \<Longrightarrow> fence_free 0 rest \<Longrightarrow> fence_free n (quote_body t @ 0x22 # rest)"
proof (induction t arbitrary: n rule: quote_body.induct)
  case 1
  then show ?case by simp
next
  case (2 c)
  then show ?case by (auto simp: fence_free_escape)
next
  case (3 c d cs)
  show ?case
  proof (cases "is_high c \<and> is_low d")
    case True
    then have "c \<noteq> 0x60" "d \<noteq> 0x60" by (auto simp: is_high_def is_low_def)
    with 3 True show ?thesis by simp
  next
    case False
    with 3 show ?thesis by (auto simp: fence_free_escape)
  qed
qed

subsection \<open>Lexing a serialized caption\<close>

lemma tokenize_punctuation:
  "tokenize (0x7B # r) = map_option ((#) LBrace) (tokenize r)"
  "tokenize (0x3A # r) = map_option ((#) Colon) (tokenize r)"
  "tokenize (0x2C # r) = map_option ((#) Comma) (tokenize r)"
  "tokenize [0x7D] = Some [RBrace]"
  by (simp_all add: tokenize.simps)

lemma tokenize_quote: "tokenize (quote s @ r) = map_option ((#) (TString s)) (tokenize r)"
  unfolding quote_def append_Cons append_Nil append_assoc
  by (subst tokenize.simps) (simp add: lex_string_quote_body)

lemma tokenize_number:
  assumes "c = 0x2D \<or> is_digit c"
  shows "tokenize (c # cs) =
     (case lex_number (c # cs) of
        None \<Rightarrow> None
      | Some (n, rest) \<Rightarrow> map_option ((#) (TNumber n)) (tokenize rest))"
proof -
  from assms have "c \<notin> {0x20, 0x09, 0x0A, 0x0D, 0x7B, 0x7D, 0x5B, 0x5D, 0x3A, 0x2C, 0x22}"
    by (auto simp: is_digit_def)
  with assms show ?thesis by (subst tokenize.simps) auto
qed

lemma tokenize_num:
  assumes "round64 q = Fin q"
  shows "tokenize (num_to_string (Fin q) @ 0x2C # r) =
           map_option ((#) (TNumber (Fin q))) (tokenize (0x2C # r))"
proof -
  from num_to_string_shape(1) [OF assms] obtain c cs where
    s: "num_to_string (Fin q) = c # cs" and c: "c = 0x2D \<or> is_digit c"
    by blast
  have "tokenize ((c # cs) @ 0x2C # r) =
      (case lex_number ((c # cs) @ 0x2C # r) of
         None \<Rightarrow> None
       | Some (n, rest) \<Rightarrow> map_option ((#) (TNumber n)) (tokenize rest))"
    using tokenize_number [OF c] by simp
  then show ?thesis
    unfolding s [symmetric] by (simp add: lex_number_num_to_string [OF assms])
qed


subsection \<open>Round trip of a caption\<close>

lemma stringify_caption_unfold:
  "stringify_caption c =
     0x7B # quote (js ''image'') @ 0x3A # stringify_number (image' c)
     @ 0x2C # quote (js ''topText'') @ 0x3A # quote (topText c)
     @ 0x2C # quote (js ''bottomText'') @ 0x3A # quote (bottomText c) @ [0x7D]"
  by (simp add: stringify_caption_def js_unfold del: js_append js_append_assoc)

lemma tokenize_stringify_caption:
  assumes "image' c = Fin q" "round64 q = Fin q"
  shows "tokenize (stringify_caption c) =
     Some [LBrace, TString (js ''image''), Colon, TNumber (Fin q), Comma,
           TString (js ''topText''), Colon, TString (topText c), Comma,
           TString (js ''bottomText''), Colon, TString (bottomText c), RBrace]"
  unfolding stringify_caption_unfold
  by (simp add: tokenize_punctuation tokenize_quote tokenize_num [OF assms(2)] assms(1)
      stringify_number_def del: js_append js_append_assoc)

lemma quote_no_backtick_literal:
  "0x60 \<notin> set (quote (js ''image''))" "0x60 \<notin> set (quote (js ''topText''))"
  "0x60 \<notin> set (quote (js ''bottomText''))"
  by (simp_all add: quote_def js_unfold escape_unit_def is_high_def is_low_def)

lemma fence_free_stringify_caption:
  assumes "image' c = Fin q" "round64 q = Fin q"
    and "fence_free 0 (topText c)" "fence_free 0 (bottomText c)"
  shows "fence_free 0 (stringify_caption c)"
proof -
  define p0 where "p0 = 0x7B # quote (js ''image'') @ 0x3A # num_to_string (Fin q)
     @ 0x2C # quote (js ''topText'') @ [0x3A, 0x22]"
  define p1 where "p1 = 0x22 # 0x2C # quote (js ''bottomText'') @ [0x3A, 0x22]"
  have s: "stringify_caption c =
      p0 @ quote_body (topText c) @ 0x22 # tl p1 @ quote_body (bottomText c) @ 0x22 # [0x7D]"
    unfolding stringify_caption_unfold p0_def p1_def
    by (simp add: assms(1) stringify_number_def quote_def [of "topText c"] quote_def [of "bottomText c"]
        del: js_append js_append_assoc)
  have p0: "p0 \<noteq> []" "0x60 \<notin> set p0"
    using num_to_string_shape(2) [OF assms(2)] quote_no_backtick_literal
    by (simp_all add: p0_def)
  have p1: "tl p1 \<noteq> []" "0x60 \<notin> set (tl p1)"
    using quote_no_backtick_literal by (simp_all add: p1_def)
  have "fence_free 0 (quote_body (bottomText c) @ 0x22 # [0x7D])"
    using assms(4) by (rule fence_free_quote_body) simp
  then have "fence_free 0 (tl p1 @ quote_body (bottomText c) @ 0x22 # [0x7D])"
    by (simp only: fence_free_prefix [OF p1])
  with assms(3) have "fence_free 0 (quote_body (topText c) @ 0x22 # tl p1 @ quote_body (bottomText c) @ 0x22 # [0x7D])"
    by (rule fence_free_quote_body)
  then show ?thesis
    unfolding s by (simp only: fence_free_prefix [OF p0])
qed

lemma clean_stringify_caption:
  assumes "image' c = Fin q" "round64 q = Fin q"
    and "fence_free 0 (topText c)" "fence_free 0 (bottomText c)"
  shows "clean (stringify_caption c) = stringify_caption c"
proof (rule clean_fence_free)
  show "fence_free 0 (stringify_caption c)"
    using assms by (rule fence_free_stringify_caption)
  show "stringify_caption c \<noteq> []" "\<not> is_space (hd (stringify_caption c))"
    "\<not> is_space (last (stringify_caption c))"
    unfolding stringify_caption_unfold by (simp_all add: is_space_def)
qed

text \<open>
  C6, as stated, fails: the code strips every run of three backticks from the text before
  it parses it, also inside a string of the JSON. The caption whose \<^verbatim>\<open>topText\<close> is such a
  run serializes to valid JSON and is parsed back with an empty \<^verbatim>\<open>topText\<close>.
\<close>

theorem fence_lost_in_round_trip:
  "stringify_caption fence_caption = fence_json
   \<and> parseMemeCaption (JStr (stringify_caption fence_caption)) =
       Inr (Some \<lparr>image' = Fin 1, topText = [], bottomText = js ''b''\<rparr>)
   \<and> parseMemeCaption (JStr (stringify_caption fence_caption)) \<noteq> Inr (Some fence_caption)"
proof -
  have s: "stringify_caption fence_caption = fence_json"
    by (simp add: stringify_caption_def fence_caption_def fence_json_def stringify_number_def
        num_to_string_1 quote_def js_unfold escape_unit_def is_high_def is_low_def)
  have c: "clean fence_json = stripped_json"
    by (simp add: clean_def fence_json_def stripped_json_def js_unfold remove_all.simps trim_def
        is_space_def)
  have t: "tokenize stripped_json =
      Some [LBrace, TString (js ''image''), Colon, TNumber (Fin 1), Comma,
            TString (js ''topText''), Colon, TString [], Comma,
            TString (js ''bottomText''), Colon, TString (js ''b''), RBrace]"
    using round64_of_int [of 1]
    by (simp add: stripped_json_def js_unfold tokenize.simps cons_result_def lex_number_def
        split_fraction_def split_exponent_def is_digit_def decimal_value_def digits_val_def
        digit_val_def pow_def)
  have p: "parseMemeCaption (JStr fence_json) =
      Inr (Some \<lparr>image' = Fin 1, topText = [], bottomText = js ''b''\<rparr>)"
    by (simp add: parseMemeCaption_def parseMemeCaption_try_def c t JSON_parse_def)
  from s p show ?thesis
    by (simp add: fence_caption_def)
qed

text \<open>
  C6, amended. For a caption whose \<^verbatim>\<open>image\<close> is a finite number (a rational \<open>q\<close> that is a
  binary64 value, \<open>round64 q = Fin q\<close>) and whose two texts contain no run of three
  backticks, parsing the JSON serialization of the caption returns the caption.
\<close>

theorem caption_round_trip:
  assumes "image' c = Fin q" "round64 q = Fin q"
    and "\<not> sublist fence (topText c)" "\<not> sublist fence (bottomText c)"
  shows "parseMemeCaption (JStr (stringify_caption c)) = Inr (Some c)"
proof -
  have ff: "fence_free 0 (topText c)" "fence_free 0 (bottomText c)"
    using assms(3,4) by (simp_all add: no_fence_free)
  have "JSON_parse (clean (stringify_caption c)) =
      Inr (JObj [(js ''image'', JNum (Fin q)), (js ''topText'', JStr (topText c)),
                 (js ''bottomText'', JStr (bottomText c))])"
    by (simp add: clean_stringify_caption [OF assms(1,2) ff] JSON_parse_def
        tokenize_stringify_caption [OF assms(1,2)])
  then show ?thesis
    by (simp add: parseMemeCaption_def parseMemeCaption_try_def assms(1) [symmetric])
qed

theorem caption_round_trip_witness:
  "image' half_caption = Fin (1 / 2) \<and> round64 (1 / 2) = Fin (1 / 2)
   \<and> \<not> sublist fence (topText half_caption) \<and> \<not> sublist fence (bottomText half_caption)
   \<and> parseMemeCaption (JStr (stringify_caption half_caption)) = Inr (Some half_caption)"
proof -
  have a: "\<not> sublist fence (topText half_caption)"
    by (simp add: half_caption_def fence_def js_unfold sublist_Cons_right)
  have b: "\<not> sublist fence (bottomText half_caption)"
    by (simp add: half_caption_def fence_def js_unfold sublist_Cons_right)
  have i: "image' half_caption = Fin (1 / 2)"
    by (simp add: half_caption_def)
  from caption_round_trip [OF i half_is_double a b] i half_is_double a b show ?thesis
    by (simp only: simp_thms)
qed

end
